theory Spec2Isabelle
  imports Main "HOL-Library.Code_Target_Numeral"
begin

section \<open>Data model of the Dwelo lock accessory\<close>

text \<open>
  The accessory is the class \<open>DweloLockAccessory\<close> (the version with the auto-lock
  timer). Its collaborators are the Dwelo transport (\<open>DweloAPI.sensors\<close>,
  \<open>DweloAPI.toggleLock\<close>), the HomeKit characteristics it updates, the logger and the
  timers of the JavaScript runtime. Every call the accessory makes to a collaborator is
  recorded in the state, so that "no command is dispatched" or "no update is made" are
  statements about these traces.
\<close>

subsection \<open>Sensor readings (interface \<open>Sensor\<close> of DweloAPI.ts)\<close>

record Sensor =
  deviceId :: int
  gatewayId :: int
  sensorType :: string
  timeIssued :: string
  uid :: int
  sensorValue :: string

subsection \<open>HomeKit enumerations used by the accessory\<close>

text \<open>
  \<open>Characteristic.LockCurrentState\<close>, \<open>Characteristic.LockTargetState\<close> and
  \<open>Characteristic.StatusLowBattery\<close> are numeric constants of the HomeKit library.
  The accessory only compares them with \<open>===\<close>, so each is an enumeration here;
  \<open>LockTargetState_num\<close> gives the number a target state has when it arrives as a
  \<open>CharacteristicValue\<close>.
\<close>

datatype LockCurrentState = UNSECURED | SECURED | JAMMED | UNKNOWN

datatype LockTargetState = T_UNSECURED | T_SECURED

datatype StatusLowBattery = BATTERY_LEVEL_NORMAL | BATTERY_LEVEL_LOW

datatype CharacteristicValue = VNum int | VStr string | VBool bool

fun LockTargetState_num :: "LockTargetState \<Rightarrow> int" where
  "LockTargetState_num T_UNSECURED = 0"
| "LockTargetState_num T_SECURED = 1"

subsection \<open>JavaScript numbers produced by \<open>parseInt\<close>\<close>

text \<open>
  A JavaScript string is a sequence of UTF-16 code units. A \<open>string\<close> here is a list
  of \<open>char\<close>, and a \<open>char\<close> stands for the code unit with its number, so the strings
  of the model are those whose code units are all below 256.

  \<open>parseInt\<close> returns a double that is an integer, an infinity or \<open>NaN\<close>.
\<close>

datatype jsnum = Num int | NaN | Infinity | NegInfinity

text \<open>
  \<open>parseInt(string, 10)\<close> of ECMAScript: leading white space is skipped, one sign is
  read, the longest prefix of decimal digits is the value and everything after it is
  ignored; with no digit the result is \<open>NaN\<close>. The white space and line terminators of
  ECMAScript below 256 are TAB, LF, VT, FF, CR, SP and NBSP (160).
\<close>

definition isWhiteSpace :: "char \<Rightarrow> bool" where
  "isWhiteSpace c = ((of_char c :: nat) \<in> {9, 10, 11, 12, 13, 32, 160})"

definition isDigit :: "char \<Rightarrow> bool" where
  "isDigit c = (48 \<le> (of_char c :: nat) \<and> (of_char c :: nat) \<le> 57)"

definition digitsValue :: "string \<Rightarrow> nat" where
  "digitsValue ds = foldl (\<lambda>acc c. 10 * acc + (of_char c - 48)) 0 ds"

text \<open>
  The mathematical value of the digits becomes a double: exact below \<open>2 ^ 53\<close>,
  otherwise rounded to 53 significant bits, ties to the even neighbour, and infinite from
  \<open>2 ^ 1024\<close> on. (Past the 20th digit ECMAScript leaves the rounding to the
  implementation; this is the correctly rounded value.) \<open>bitlen\<close> is the number of bits
  of a natural number; it is only reached from \<open>2 ^ 53\<close> on.
\<close>

fun bitlen :: "nat \<Rightarrow> nat" where
  "bitlen 0 = 0"
| "bitlen (Suc n) = Suc (bitlen (Suc n div 2))"

definition to_double :: "nat \<Rightarrow> nat" where
  "to_double n =
     (if n < 2 ^ 53 then n
      else
        (let e = bitlen n - 53;
             q = n div 2 ^ e;
             r = n mod 2 ^ e;
             half = 2 ^ (e - 1);
             q' = (if r > half \<or> (r = half \<and> odd q) then q + 1 else q)
         in q' * 2 ^ e))"

definition parseInt :: "string \<Rightarrow> jsnum" where
  "parseInt str =
     (let S = dropWhile isWhiteSpace str;
          sign = (case S of c # _ \<Rightarrow> if c = CHR ''-'' then - 1 else 1 | [] \<Rightarrow> (1::int));
          S' = (case S of c # rest \<Rightarrow> if c = CHR ''+'' \<or> c = CHR ''-'' then rest else S
                        | [] \<Rightarrow> S);
          Z = takeWhile isDigit S'
      in if Z = [] then NaN
         else
           (let number = to_double (digitsValue Z)
            in if number \<ge> 2 ^ 1024 then (if sign < 0 then NegInfinity else Infinity)
               else Num (sign * int number)))"

text \<open>\<open>batteryLevel > 20\<close>: every comparison with \<open>NaN\<close> is false.\<close>

fun js_gt :: "jsnum \<Rightarrow> int \<Rightarrow> bool" where
  "js_gt (Num n) k = (n > k)"
| "js_gt NaN k = False"
| "js_gt Infinity k = True"
| "js_gt NegInfinity k = False"

subsection \<open>Calls to collaborators\<close>

datatype error = AxiosError string

text \<open>A call of \<open>updateValue\<close> on one of the four characteristics.\<close>

datatype update =
    UpdLockCurrentState LockCurrentState
  | UpdLockTargetState LockTargetState
  | UpdBatteryLevel jsnum
  | UpdStatusLowBattery StatusLowBattery

datatype log_level = Debug | Info | Warn

datatype log_arg =
    NumArg jsnum
  | TargetArg LockTargetState
  | StateArg LockCurrentState
  | ErrArg error
  | MinutesArg int

type_synonym log_entry = "log_level \<times> string \<times> log_arg list"

subsection \<open>Timers and suspended calls of the runtime\<close>

text \<open>
  A timer of the event loop is its handle, the callback it runs and the delay it was
  created with. \<open>PollCb\<close> is the \<open>setInterval\<close> of the constructor and stays in the
  table when it fires; the other two are \<open>setTimeout\<close> timers and leave the table when
  they fire or when \<open>clearTimeout\<close> is called on their handle.
\<close>

datatype timer_cb = PollCb | WatchdogCb | AutoLockCb

type_synonym timer = "nat \<times> timer_cb \<times> int"

text \<open>
  An \<open>await\<close> on a transport call suspends the running function. The continuation names
  which function is waiting: \<open>poll\<close>, \<open>getLockState\<close> called by HomeKit,
  \<open>getLockState\<close> called by \<open>getTargetLockState\<close>, \<open>getLockState\<close> called by
  \<open>reconcileTargetWithCurrent\<close>, and \<open>sendLockCommand\<close> waiting for \<open>toggleLock\<close>.
\<close>

datatype continuation = PollK | GetLockStateK | GetTargetLockStateK | ReconcileK | SendLockCommandK

subsection \<open>Configuration and state\<close>

text \<open>
  The read-only constructor parameters. \<open>lockPollMs\<close> and \<open>autoLockMinutes\<close> are
  JavaScript numbers holding a count of milliseconds and of minutes; they are integers
  here. The fields of \<open>lock\<close> up to \<open>autoLockTimer\<close> are the fields of the class; the
  others are the runtime's timer table and suspended calls, and the calls made so far to
  \<open>toggleLock\<close>, \<open>updateValue\<close> and the logger.
\<close>

record config =
  lockPollMs :: int
  autoLockMinutes :: int
  name :: string
  lockID :: int

record lock =
  inFlight :: bool
  desiredTarget :: "LockTargetState option"
  pollTimer :: "nat option"
  watchdog :: "nat option"
  autoLockTimer :: "nat option"
  timers :: "timer list"
  nextHandle :: nat
  awaiting :: "continuation list"
  commands :: "bool list"
  updates :: "update list"
  logs :: "log_entry list"

section \<open>The accessory's functions\<close>

subsection \<open>Runtime and collaborator primitives\<close>

definition updateValue :: "update \<Rightarrow> lock \<Rightarrow> lock" where
  "updateValue u s = s\<lparr>updates := updates s @ [u]\<rparr>"

definition log_msg :: "log_level \<Rightarrow> string \<Rightarrow> log_arg list \<Rightarrow> lock \<Rightarrow> lock" where
  "log_msg lvl msg args s = s\<lparr>logs := logs s @ [(lvl, msg, args)]\<rparr>"

definition setTimeout :: "timer_cb \<Rightarrow> int \<Rightarrow> lock \<Rightarrow> nat \<times> lock" where
  "setTimeout cb ms s =
     (nextHandle s, s\<lparr>timers := timers s @ [(nextHandle s, cb, ms)], nextHandle := Suc (nextHandle s)\<rparr>)"

definition clearTimeout :: "nat \<Rightarrow> lock \<Rightarrow> lock" where
  "clearTimeout h s = s\<lparr>timers := filter (\<lambda>t. fst t \<noteq> h) (timers s)\<rparr>"

text \<open>Calling the transport and suspending at the \<open>await\<close>.\<close>

definition await_sensors :: "continuation \<Rightarrow> lock \<Rightarrow> lock" where
  "await_sensors k s = s\<lparr>awaiting := awaiting s @ [k]\<rparr>"

definition await_toggleLock :: "bool \<Rightarrow> lock \<Rightarrow> lock" where
  "await_toggleLock desired s =
     s\<lparr>commands := commands s @ [desired], awaiting := awaiting s @ [SendLockCommandK]\<rparr>"

subsection \<open>\<open>toLockState\<close> and \<open>setBatteryLevel\<close>\<close>

definition toLockState :: "Sensor list \<Rightarrow> LockCurrentState" where
  "toLockState sensors =
     (case find (\<lambda>s. sensorType s = ''lock'') sensors of
        None \<Rightarrow> UNKNOWN
      | Some lockSensor \<Rightarrow> if sensorValue lockSensor = ''locked'' then SECURED else UNSECURED)"

definition setBatteryLevel :: "Sensor list \<Rightarrow> lock \<Rightarrow> lock" where
  "setBatteryLevel sensors s =
     (case find (\<lambda>s. sensorType s = ''battery'') sensors of
        None \<Rightarrow> s
      | Some batterySensor \<Rightarrow>
          (let batteryLevel = parseInt (sensorValue batterySensor);
               batteryStatus = (if js_gt batteryLevel 20 then BATTERY_LEVEL_NORMAL else BATTERY_LEVEL_LOW);
               s1 = updateValue (UpdBatteryLevel batteryLevel) s;
               s2 = updateValue (UpdStatusLowBattery batteryStatus) s1
           in log_msg Info ''Lock battery: '' [NumArg batteryLevel] s2))"

subsection \<open>\<open>getLockState\<close> and \<open>getTargetLockState\<close>\<close>

text \<open>
  An \<open>async\<close> function is split at its \<open>await\<close>: the part before it issues the call and
  suspends, the \<open>_resume\<close> part runs when the call settles, with \<open>Inl\<close> for a rejected
  promise. \<open>getLockState\<close> has no \<open>try\<close>, so a rejection leaves it as it came.
\<close>

definition getLockState :: "continuation \<Rightarrow> lock \<Rightarrow> lock" where
  "getLockState k s = await_sensors k s"

definition getLockState_resume :: "error + Sensor list \<Rightarrow> lock \<Rightarrow> (error + LockCurrentState) \<times> lock" where
  "getLockState_resume r s =
     (case r of
        Inl e \<Rightarrow> (Inl e, s)
      | Inr sensors \<Rightarrow>
          (let state = toLockState sensors;
               s1 = setBatteryLevel sensors s;
               s2 = log_msg Debug ''Current state of the lock was returned: '' [StateArg state] s1
           in (Inr state, s2)))"

text \<open>\<open>getTargetLockState\<close> answers at once (\<open>Some\<close>) or suspends in \<open>getLockState\<close>.\<close>

definition getTargetLockState :: "lock \<Rightarrow> LockTargetState option \<times> lock" where
  "getTargetLockState s =
     (case desiredTarget s of
        Some t \<Rightarrow> (Some t, s)
      | None \<Rightarrow> (None, getLockState GetTargetLockStateK s))"

definition getTargetLockState_resume :: "error + Sensor list \<Rightarrow> lock \<Rightarrow> (error + LockTargetState) \<times> lock" where
  "getTargetLockState_resume r s =
     (case getLockState_resume r s of
        (Inl e, s') \<Rightarrow> (Inl e, s')
      | (Inr cur, s') \<Rightarrow> (Inr (if cur = SECURED then T_SECURED else T_UNSECURED), s'))"

subsection \<open>\<open>reconcileTargetWithCurrent\<close>\<close>

definition reconcileTargetWithCurrent :: "lock \<Rightarrow> lock" where
  "reconcileTargetWithCurrent s = getLockState ReconcileK s"

definition reconcileTargetWithCurrent_resume :: "error + Sensor list \<Rightarrow> lock \<Rightarrow> (error + unit) \<times> lock" where
  "reconcileTargetWithCurrent_resume r s =
     (case getLockState_resume r s of
        (Inl e, s') \<Rightarrow> (Inl e, s')
      | (Inr currentState, s') \<Rightarrow>
          (let t = (if currentState = SECURED then T_SECURED else T_UNSECURED);
               s1 = s'\<lparr>desiredTarget := Some t\<rparr>
           in (Inr (), updateValue (UpdLockTargetState t) s1)))"

subsection \<open>\<open>sendLockCommand\<close> and \<open>startWatchdog\<close>\<close>

definition sendLockCommand :: "LockTargetState \<Rightarrow> lock \<Rightarrow> lock" where
  "sendLockCommand target s = (let desired = (target = T_SECURED) in await_toggleLock desired s)"

text \<open>The \<open>catch\<close> block runs up to the \<open>await\<close> inside \<open>reconcileTargetWithCurrent\<close>.\<close>

definition sendLockCommand_resume :: "error + unit \<Rightarrow> lock \<Rightarrow> lock" where
  "sendLockCommand_resume r s =
     (case r of
        Inr _ \<Rightarrow> s
      | Inl err \<Rightarrow>
          (let s1 = log_msg Warn ''Lock command failed:'' [ErrArg err] s;
               s2 = s1\<lparr>inFlight := False\<rparr>
           in reconcileTargetWithCurrent s2))"

definition startWatchdog :: "config \<Rightarrow> lock \<Rightarrow> lock" where
  "startWatchdog cfg s =
     (let s1 = (case watchdog s of Some h \<Rightarrow> clearTimeout h s | None \<Rightarrow> s);
          (h, s2) = setTimeout WatchdogCb (2 * lockPollMs cfg) s1
      in s2\<lparr>watchdog := Some h\<rparr>)"

text \<open>The callback given to \<open>setTimeout\<close> in \<open>startWatchdog\<close>, up to its \<open>await\<close>.\<close>

definition watchdog_expired :: "lock \<Rightarrow> lock" where
  "watchdog_expired s =
     (let s1 = log_msg Warn ''Lock operation watchdog expired; reconciling.'' [] s;
          s2 = s1\<lparr>inFlight := False\<rparr>
      in reconcileTargetWithCurrent s2)"

subsection \<open>\<open>setTargetLockState\<close>\<close>

text \<open>The local constant \<open>target\<close>: \<open>(value === T.SECURED) ? T.SECURED : T.UNSECURED\<close>.\<close>

definition target_of :: "CharacteristicValue \<Rightarrow> LockTargetState" where
  "target_of v = (if v = VNum (LockTargetState_num T_SECURED) then T_SECURED else T_UNSECURED)"

definition setTargetLockState :: "config \<Rightarrow> CharacteristicValue \<Rightarrow> lock \<Rightarrow> lock" where
  "setTargetLockState cfg v s =
     (let target = target_of v
      in if inFlight s \<and> desiredTarget s = Some target
         then log_msg Debug ''Coalescing duplicate lock request:'' [TargetArg target] s
         else
           (let s1 = s\<lparr>desiredTarget := Some target\<rparr>;
                s2 = updateValue (UpdLockTargetState target) s1;
                s3 = log_msg Info ''Setting lock to: '' [TargetArg target] s2
            in if \<not> inFlight s3
               then startWatchdog cfg (sendLockCommand target (s3\<lparr>inFlight := True\<rparr>))
               else s3))"

subsection \<open>The auto-lock timer\<close>

definition startAutoLockTimer :: "config \<Rightarrow> lock \<Rightarrow> lock" where
  "startAutoLockTimer cfg s =
     (if autoLockMinutes cfg \<le> 0 then s
      else
        (let s1 = (case autoLockTimer s of Some h \<Rightarrow> clearTimeout h s | None \<Rightarrow> s);
             (h, s2) = setTimeout AutoLockCb (autoLockMinutes cfg * 60 * 1000) s1;
             s3 = s2\<lparr>autoLockTimer := Some h\<rparr>
         in log_msg Info ''Auto-lock scheduled'' [MinutesArg (autoLockMinutes cfg)] s3))"

text \<open>
  The callback given to \<open>setTimeout\<close> in \<open>startAutoLockTimer\<close>. \<open>setTargetLockState\<close>
  has no \<open>await\<close>, so the callback runs to its end in one piece; it does not touch the
  field \<open>autoLockTimer\<close>.
\<close>

definition autoLock_expired :: "config \<Rightarrow> lock \<Rightarrow> lock" where
  "autoLock_expired cfg s =
     (let s1 = log_msg Info ''Auto-lock timer elapsed. Relocking.'' [MinutesArg (autoLockMinutes cfg)] s
      in setTargetLockState cfg (VNum (LockTargetState_num T_SECURED)) s1)"

definition cancelAutoLockTimer :: "lock \<Rightarrow> lock" where
  "cancelAutoLockTimer s =
     (case autoLockTimer s of
        Some h \<Rightarrow> (clearTimeout h s)\<lparr>autoLockTimer := None\<rparr>
      | None \<Rightarrow> s)"

subsection \<open>\<open>poll\<close>\<close>

definition poll :: "lock \<Rightarrow> lock" where
  "poll s = await_sensors PollK s"

text \<open>
  After the \<open>await\<close>, \<open>poll\<close> runs two blocks on the translated state: the one that
  maintains the auto-lock timer and the one that checks whether the session is complete.
\<close>

definition maintainAutoLock :: "config \<Rightarrow> LockCurrentState \<Rightarrow> lock \<Rightarrow> lock" where
  "maintainAutoLock cfg currentState s =
     (if currentState = UNSECURED
      then (if autoLockTimer s = None then startAutoLockTimer cfg s else s)
      else if currentState = SECURED then cancelAutoLockTimer s
      else s)"

definition completionCheck :: "LockCurrentState \<Rightarrow> lock \<Rightarrow> lock" where
  "completionCheck currentState s =
     (if inFlight s \<and> desiredTarget s \<noteq> None
      then
        (let desiredState = (if desiredTarget s = Some T_SECURED then SECURED else UNSECURED)
         in if currentState = desiredState
            then
              (let s1 = s\<lparr>inFlight := False\<rparr>;
                   s2 = (case watchdog s1 of Some h \<Rightarrow> clearTimeout h s1 | None \<Rightarrow> s1)
               in log_msg Info ''Lock toggle completed'' [] s2)
            else s)
      else s)"

definition poll_resume :: "config \<Rightarrow> error + Sensor list \<Rightarrow> lock \<Rightarrow> lock" where
  "poll_resume cfg r s =
     (case r of
        Inl e \<Rightarrow> log_msg Warn ''Failed to fetch status of lock'' [ErrArg e] s
      | Inr sensors \<Rightarrow>
          (let currentState = toLockState sensors;
               s1 = setBatteryLevel sensors s;
               s2 = updateValue (UpdLockCurrentState currentState) s1;
               s3 = maintainAutoLock cfg currentState s2
           in completionCheck currentState s3))"

subsection \<open>Construction and the event loop\<close>

text \<open>
  The constructor sets the fields, starts the polling interval and logs. The handlers it
  registers with HomeKit are the events \<open>OnGet\<close> and \<open>OnSet\<close> below.
\<close>

definition init :: "config \<Rightarrow> lock" where
  "init cfg =
     \<lparr>inFlight = False, desiredTarget = None, pollTimer = Some 0, watchdog = None,
      autoLockTimer = None, timers = [(0, PollCb, lockPollMs cfg)], nextHandle = 1,
      awaiting = [], commands = [], updates = [],
      logs = [(Info, ''Dwelo Lock created!'', [])]\<rparr>"

text \<open>
  One event is one run of the accessory's code from a point where the event loop enters
  it to the next \<open>await\<close> or return: a HomeKit request, a timer that fires, or a
  transport call that settles. A timer fires only while it is in the table, and a call
  settles only while its continuation is suspended; otherwise the event does nothing.
\<close>

datatype event =
    OnGetLockCurrentState
  | OnGetLockTargetState
  | OnSetLockTargetState CharacteristicValue
  | TimerFired nat
  | SensorsSettled continuation "error + Sensor list"
  | ToggleLockSettled "error + unit"

definition fire :: "config \<Rightarrow> nat \<Rightarrow> lock \<Rightarrow> lock" where
  "fire cfg h s =
     (case find (\<lambda>t. fst t = h) (timers s) of
        None \<Rightarrow> s
      | Some (_, cb, _) \<Rightarrow>
          (case cb of
             PollCb \<Rightarrow> poll s
           | WatchdogCb \<Rightarrow> watchdog_expired (clearTimeout h s)
           | AutoLockCb \<Rightarrow> autoLock_expired cfg (clearTimeout h s)))"

definition resume :: "config \<Rightarrow> continuation \<Rightarrow> error + Sensor list \<Rightarrow> lock \<Rightarrow> lock" where
  "resume cfg k r s =
     (case k of
        PollK \<Rightarrow> poll_resume cfg r s
      | GetLockStateK \<Rightarrow> snd (getLockState_resume r s)
      | GetTargetLockStateK \<Rightarrow> snd (getTargetLockState_resume r s)
      | ReconcileK \<Rightarrow> snd (reconcileTargetWithCurrent_resume r s)
      | SendLockCommandK \<Rightarrow> s)"

fun step :: "config \<Rightarrow> lock \<Rightarrow> event \<Rightarrow> lock" where
  "step cfg s OnGetLockCurrentState = getLockState GetLockStateK s"
| "step cfg s OnGetLockTargetState = snd (getTargetLockState s)"
| "step cfg s (OnSetLockTargetState v) = setTargetLockState cfg v s"
| "step cfg s (TimerFired h) = fire cfg h s"
| "step cfg s (SensorsSettled k r) =
     (if k \<in> set (awaiting s) \<and> k \<noteq> SendLockCommandK
      then resume cfg k r (s\<lparr>awaiting := remove1 k (awaiting s)\<rparr>)
      else s)"
| "step cfg s (ToggleLockSettled r) =
     (if SendLockCommandK \<in> set (awaiting s)
      then sendLockCommand_resume r (s\<lparr>awaiting := remove1 SendLockCommandK (awaiting s)\<rparr>)
      else s)"

definition run :: "config \<Rightarrow> lock \<Rightarrow> event list \<Rightarrow> lock" where
  "run cfg s es = foldl (step cfg) s es"

subsection \<open>Observations on a state\<close>

text \<open>A timer is armed when the handle the accessory holds is in the runtime's table.\<close>

fun armed :: "nat option \<Rightarrow> lock \<Rightarrow> bool" where
  "armed None s = False"
| "armed (Some h) s = (h \<in> set (map fst (timers s)))"

definition watchdog_armed :: "lock \<Rightarrow> bool" where
  "watchdog_armed s = armed (watchdog s) s"

definition autoLock_armed :: "lock \<Rightarrow> bool" where
  "autoLock_armed s = armed (autoLockTimer s) s"

text \<open>
  What the polls have observed. Only \<open>poll\<close> writes the current-state characteristic,
  so \<open>polled\<close> lists the state each successful poll derived, in order. \<open>lastPolled\<close>
  is the state of the latest poll and \<open>lastPolledKnown\<close> that of the latest poll that
  found a lock reading. The states that \<open>getLockState\<close> derives for HomeKit or for
  reconciliation are not in these lists: that function returns its state to the caller
  (the first component of \<open>getLockState_resume\<close>) and writes no characteristic.
\<close>

fun polled :: "update list \<Rightarrow> LockCurrentState list" where
  "polled [] = []"
| "polled (UpdLockCurrentState st # us) = st # polled us"
| "polled (u # us) = polled us"

definition last_opt :: "'a list \<Rightarrow> 'a option" where
  "last_opt xs = (case rev xs of [] \<Rightarrow> None | x # _ \<Rightarrow> Some x)"

definition lastPolled :: "lock \<Rightarrow> LockCurrentState option" where
  "lastPolled s = last_opt (polled (updates s))"

definition lastPolledKnown :: "lock \<Rightarrow> LockCurrentState option" where
  "lastPolledKnown s = last_opt (filter (\<lambda>st. st \<noteq> UNKNOWN) (polled (updates s)))"

text \<open>The calls of \<open>updateValue\<close> on the two battery characteristics.\<close>

fun is_battery_update :: "update \<Rightarrow> bool" where
  "is_battery_update (UpdBatteryLevel n) = True"
| "is_battery_update (UpdStatusLowBattery b) = True"
| "is_battery_update u = False"

definition battery_updates :: "lock \<Rightarrow> update list" where
  "battery_updates s = filter is_battery_update (updates s)"

definition lock_updates :: "lock \<Rightarrow> update list" where
  "lock_updates s = filter (\<lambda>u. \<not> is_battery_update u) (updates s)"

text \<open>The auto-lock timers in the runtime's table, and the relock attempts made so far.\<close>

definition autoLock_timers :: "lock \<Rightarrow> timer list" where
  "autoLock_timers s = filter (\<lambda>t. fst (snd t) = AutoLockCb) (timers s)"

definition relock_attempts :: "lock \<Rightarrow> nat" where
  "relock_attempts s =
     length (filter (\<lambda>l. fst (snd l) = ''Auto-lock timer elapsed. Relocking.'') (logs s))"

fun observes_SECURED :: "event \<Rightarrow> bool" where
  "observes_SECURED (SensorsSettled k (Inr sensors)) = (k = PollK \<and> toLockState sensors = SECURED)"
| "observes_SECURED e = False"

subsection \<open>Handles of a well-formed state\<close>

text \<open>
  \<open>setTimeout\<close> returns a new object each time. With handles as numbers this is: the
  handles in use are below the next one, no two timers of the table share a handle, and
  a timer in the table is a watchdog (an auto-lock timer) exactly when its handle is the
  one the accessory holds in the field \<open>watchdog\<close> (\<open>autoLockTimer\<close>).
\<close>

definition handles_ok :: "lock \<Rightarrow> bool" where
  "handles_ok s =
     (distinct (map fst (timers s)) \<and>
      list_all (\<lambda>t. fst t < nextHandle s) (timers s) \<and>
      pred_option (\<lambda>h. h < nextHandle s) (watchdog s) \<and>
      pred_option (\<lambda>h. h < nextHandle s) (autoLockTimer s) \<and>
      list_all (\<lambda>t. (fst (snd t) = WatchdogCb) = (watchdog s = Some (fst t))) (timers s) \<and>
      list_all (\<lambda>t. (fst (snd t) = AutoLockCb) = (autoLockTimer s = Some (fst t))) (timers s))"

text \<open>
  Two states with the same lock handling: they agree on everything but the log and the
  updates of the two battery characteristics.
\<close>

definition same_lock_handling :: "lock \<Rightarrow> lock \<Rightarrow> bool" where
  "same_lock_handling s t =
     (inFlight s = inFlight t \<and> desiredTarget s = desiredTarget t \<and>
      pollTimer s = pollTimer t \<and> watchdog s = watchdog t \<and>
      autoLockTimer s = autoLockTimer t \<and> timers s = timers t \<and>
      nextHandle s = nextHandle t \<and> awaiting s = awaiting t \<and>
      commands s = commands t \<and> lock_updates s = lock_updates t)"

subsection \<open>Concrete inputs\<close>

definition example_cfg :: config where
  "example_cfg = \<lparr>lockPollMs = 5000, autoLockMinutes = 1, name = ''Front Door'', lockID = 7\<rparr>"

definition reading :: "string \<Rightarrow> string \<Rightarrow> Sensor" where
  "reading kind v =
     \<lparr>deviceId = 7, gatewayId = 1, sensorType = kind, timeIssued = ''2025-01-01T00:00:00Z'',
      uid = 1, sensorValue = v\<rparr>"

section \<open>Properties\<close>

subsection \<open>Helper facts\<close>

lemma find_first:
  "\<forall>x \<in> set pre. \<not> P x \<Longrightarrow> P l \<Longrightarrow> find P (pre @ l # post) = Some l"
  by (induction pre) auto

lemma setTargetLockState_first:
  "setTargetLockState example_cfg (VNum 1) (init example_cfg) =
     \<lparr>inFlight = True, desiredTarget = Some T_SECURED, pollTimer = Some 0,
      watchdog = Some 1, autoLockTimer = None,
      timers = [(0, PollCb, 5000), (1, WatchdogCb, 10000)], nextHandle = 2,
      awaiting = [SendLockCommandK], commands = [True],
      updates = [UpdLockTargetState T_SECURED],
      logs = [(Info, ''Dwelo Lock created!'', []),
              (Info, ''Setting lock to: '', [TargetArg T_SECURED])]\<rparr>"
  by (simp add: setTargetLockState_def Let_def updateValue_def log_msg_def startWatchdog_def
      sendLockCommand_def await_toggleLock_def setTimeout_def clearTimeout_def init_def
      example_cfg_def target_of_def)

lemmas eval_defs = run_def fire_def resume_def poll_def poll_resume_def maintainAutoLock_def
  completionCheck_def startAutoLockTimer_def cancelAutoLockTimer_def setBatteryLevel_def
  setTargetLockState_def target_of_def startWatchdog_def sendLockCommand_def
  sendLockCommand_resume_def reconcileTargetWithCurrent_def getLockState_def
  toLockState_def reading_def example_cfg_def init_def Let_def updateValue_def log_msg_def
  setTimeout_def clearTimeout_def await_sensors_def await_toggleLock_def

lemma run_unlocked:
  "run example_cfg (init example_cfg)
     [TimerFired 0, SensorsSettled PollK (Inr [reading ''lock'' ''unlocked''])] =
   \<lparr>inFlight = False, desiredTarget = None, pollTimer = Some 0, watchdog = None,
    autoLockTimer = Some 1, timers = [(0, PollCb, 5000), (1, AutoLockCb, 60000)], nextHandle = 2,
    awaiting = [], commands = [], updates = [UpdLockCurrentState UNSECURED],
    logs = [(Info, ''Dwelo Lock created!'', []), (Info, ''Auto-lock scheduled'', [MinutesArg 1])]\<rparr>"
  by (simp add: eval_defs)

subsection \<open>The state translator\<close>

text \<open>
  C6. \<open>toLockState\<close> is a total function of the readings alone. It returns \<open>UNKNOWN\<close>
  exactly when no reading has the kind \<open>lock\<close>; otherwise the first reading of kind
  \<open>lock\<close> decides: \<open>SECURED\<close> when its value is \<open>locked\<close>, \<open>UNSECURED\<close> for any
  other value.
\<close>

theorem toLockState_spec:
  "((toLockState sensors = UNKNOWN) = (\<forall>s \<in> set sensors. sensorType s \<noteq> ''lock'')) \<and>
   (\<forall>pre l post.
      sensors = pre @ l # post \<and> (\<forall>s \<in> set pre. sensorType s \<noteq> ''lock'') \<and> sensorType l = ''lock'' \<longrightarrow>
      toLockState sensors = (if sensorValue l = ''locked'' then SECURED else UNSECURED))"
proof (intro conjI allI impI)
  show "(toLockState sensors = UNKNOWN) = (\<forall>s \<in> set sensors. sensorType s \<noteq> ''lock'')"
  proof -
    have "(find (\<lambda>s. sensorType s = ''lock'') sensors = None) =
          (\<forall>s \<in> set sensors. sensorType s \<noteq> ''lock'')"
      by (auto simp: find_None_iff)
    then show ?thesis
      by (cases "find (\<lambda>s. sensorType s = ''lock'') sensors") (auto simp: toLockState_def)
  qed
next
  fix pre l post
  assume a: "sensors = pre @ l # post \<and> (\<forall>s \<in> set pre. sensorType s \<noteq> ''lock'') \<and> sensorType l = ''lock''"
  then have "find (\<lambda>s. sensorType s = ''lock'') sensors = Some l"
    using find_first[of pre "\<lambda>s. sensorType s = ''lock''" l post] by simp
  then show "toLockState sensors = (if sensorValue l = ''locked'' then SECURED else UNSECURED)"
    by (simp add: toLockState_def)
qed

theorem toLockState_spec_witness:
  "toLockState [reading ''battery'' ''87''] = UNKNOWN \<and>
   toLockState [reading ''battery'' ''87'', reading ''lock'' ''locked''] = SECURED \<and>
   toLockState [reading ''lock'' ''unlocked'', reading ''lock'' ''locked''] = UNSECURED"
proof -
  have 1: "toLockState [reading ''battery'' ''87''] = UNKNOWN"
    using toLockState_spec[of "[reading ''battery'' ''87'']"] by (simp add: reading_def)
  have 2: "toLockState [reading ''battery'' ''87'', reading ''lock'' ''locked''] = SECURED"
    using toLockState_spec[of "[reading ''battery'' ''87'', reading ''lock'' ''locked'']",
        THEN conjunct2, rule_format, of "[reading ''battery'' ''87'']" "reading ''lock'' ''locked''" "[]"]
    by (simp add: reading_def)
  have 3: "toLockState [reading ''lock'' ''unlocked'', reading ''lock'' ''locked''] = UNSECURED"
    using toLockState_spec[of "[reading ''lock'' ''unlocked'', reading ''lock'' ''locked'']",
        THEN conjunct2, rule_format, of "[]" "reading ''lock'' ''unlocked''" "[reading ''lock'' ''locked'']"]
    by (simp add: reading_def)
  from 1 2 3 show ?thesis by simp
qed

subsection \<open>Requests while a session is in flight\<close>

text \<open>
  C2. When \<open>setTargetLockState\<close> is called while a session is in flight, with a target
  other than the current \<open>desiredTarget\<close>, the only changes are: \<open>desiredTarget\<close>
  becomes the new target, the target-state characteristic is updated to it, and one
  line is logged. The commands sent, the suspended calls, the timer table and the
  watchdog handle are as before: nothing is dispatched and the watchdog is not rearmed.
\<close>

theorem setTargetLockState_retarget:
  assumes "inFlight s" and "desiredTarget s \<noteq> Some (target_of v)"
  shows "setTargetLockState cfg v s =
           s\<lparr>desiredTarget := Some (target_of v),
             updates := updates s @ [UpdLockTargetState (target_of v)],
             logs := logs s @ [(Info, ''Setting lock to: '', [TargetArg (target_of v)])]\<rparr>"
  using assms by (simp add: setTargetLockState_def Let_def updateValue_def log_msg_def)

theorem setTargetLockState_retarget_witness:
  "setTargetLockState example_cfg (VNum 0) (setTargetLockState example_cfg (VNum 1) (init example_cfg)) =
     (setTargetLockState example_cfg (VNum 1) (init example_cfg))
       \<lparr>desiredTarget := Some T_UNSECURED,
        updates := [UpdLockTargetState T_SECURED, UpdLockTargetState T_UNSECURED],
        logs := [(Info, ''Dwelo Lock created!'', []),
                 (Info, ''Setting lock to: '', [TargetArg T_SECURED]),
                 (Info, ''Setting lock to: '', [TargetArg T_UNSECURED])]\<rparr>"
proof -
  let ?s = "setTargetLockState example_cfg (VNum 1) (init example_cfg)"
  have h1: "inFlight ?s"
    by (simp add: setTargetLockState_first)
  have h2: "desiredTarget ?s \<noteq> Some (target_of (VNum 0))"
    by (simp add: setTargetLockState_first target_of_def)
  show ?thesis
    using setTargetLockState_retarget[OF h1 h2, of example_cfg]
    by (simp add: setTargetLockState_first target_of_def)
qed

text \<open>
  C3. When \<open>setTargetLockState\<close> is called with no session in flight and then called
  again with the same value, the first call starts the session and sends one command;
  the second call sends nothing and leaves every field as it was, apart from the debug
  line it logs. So the two calls together issue exactly one \<open>toggleLock\<close>.
\<close>

theorem setTargetLockState_twice:
  assumes "\<not> inFlight s"
  shows "let s1 = setTargetLockState cfg v s; s2 = setTargetLockState cfg v s1 in
           inFlight s1 \<and> desiredTarget s1 = Some (target_of v) \<and>
           commands s1 = commands s @ [target_of v = T_SECURED] \<and>
           s2 = s1\<lparr>logs := logs s1 @
                    [(Debug, ''Coalescing duplicate lock request:'', [TargetArg (target_of v)])]\<rparr>"
  using assms
  by (simp add: setTargetLockState_def Let_def updateValue_def log_msg_def startWatchdog_def
      sendLockCommand_def await_toggleLock_def setTimeout_def clearTimeout_def split: option.splits)

theorem setTargetLockState_twice_witness:
  "let s1 = setTargetLockState example_cfg (VNum 1) (init example_cfg);
       s2 = setTargetLockState example_cfg (VNum 1) s1
   in commands s1 = [True] \<and> commands s2 = [True] \<and> inFlight s2 \<and> timers s2 = timers s1"
proof -
  have h: "\<not> inFlight (init example_cfg)" by (simp add: init_def)
  show ?thesis
    using setTargetLockState_twice[OF h, of example_cfg "VNum 1"]
    by (simp add: Let_def target_of_def init_def)
qed

subsection \<open>What each function leaves unchanged\<close>

lemmas prim_defs = updateValue_def log_msg_def setTimeout_def clearTimeout_def await_sensors_def
  await_toggleLock_def

lemma setBatteryLevel_frame:
  "inFlight (setBatteryLevel x s) = inFlight s"
  "desiredTarget (setBatteryLevel x s) = desiredTarget s"
  "pollTimer (setBatteryLevel x s) = pollTimer s"
  "watchdog (setBatteryLevel x s) = watchdog s"
  "autoLockTimer (setBatteryLevel x s) = autoLockTimer s"
  "timers (setBatteryLevel x s) = timers s"
  "nextHandle (setBatteryLevel x s) = nextHandle s"
  "awaiting (setBatteryLevel x s) = awaiting s"
  "commands (setBatteryLevel x s) = commands s"
  by (simp_all add: setBatteryLevel_def Let_def prim_defs split: option.splits)

lemma polled_append: "polled (us @ vs) = polled us @ polled vs"
  by (induction us rule: polled.induct) simp_all

lemma setBatteryLevel_polled:
  "polled (updates (setBatteryLevel x s)) = polled (updates s)"
  by (simp add: setBatteryLevel_def Let_def prim_defs polled_append split: option.splits)

lemma setBatteryLevel_lock_updates:
  "lock_updates (setBatteryLevel x s) = lock_updates s"
  by (simp add: setBatteryLevel_def Let_def prim_defs lock_updates_def split: option.splits)

lemma setBatteryLevel_relock:
  "relock_attempts (setBatteryLevel x s) = relock_attempts s"
  by (simp add: setBatteryLevel_def Let_def prim_defs relock_attempts_def split: option.splits)

lemma startAutoLockTimer_frame:
  "inFlight (startAutoLockTimer cfg s) = inFlight s"
  "desiredTarget (startAutoLockTimer cfg s) = desiredTarget s"
  "pollTimer (startAutoLockTimer cfg s) = pollTimer s"
  "watchdog (startAutoLockTimer cfg s) = watchdog s"
  "awaiting (startAutoLockTimer cfg s) = awaiting s"
  "commands (startAutoLockTimer cfg s) = commands s"
  "updates (startAutoLockTimer cfg s) = updates s"
  by (simp_all add: startAutoLockTimer_def Let_def prim_defs split: option.splits)

lemma cancelAutoLockTimer_frame:
  "inFlight (cancelAutoLockTimer s) = inFlight s"
  "desiredTarget (cancelAutoLockTimer s) = desiredTarget s"
  "pollTimer (cancelAutoLockTimer s) = pollTimer s"
  "watchdog (cancelAutoLockTimer s) = watchdog s"
  "nextHandle (cancelAutoLockTimer s) = nextHandle s"
  "awaiting (cancelAutoLockTimer s) = awaiting s"
  "commands (cancelAutoLockTimer s) = commands s"
  "updates (cancelAutoLockTimer s) = updates s"
  "logs (cancelAutoLockTimer s) = logs s"
  "autoLockTimer (cancelAutoLockTimer s) = None"
  by (simp_all add: cancelAutoLockTimer_def prim_defs split: option.splits)

lemma maintainAutoLock_frame:
  "inFlight (maintainAutoLock cfg c s) = inFlight s"
  "desiredTarget (maintainAutoLock cfg c s) = desiredTarget s"
  "pollTimer (maintainAutoLock cfg c s) = pollTimer s"
  "watchdog (maintainAutoLock cfg c s) = watchdog s"
  "awaiting (maintainAutoLock cfg c s) = awaiting s"
  "commands (maintainAutoLock cfg c s) = commands s"
  "updates (maintainAutoLock cfg c s) = updates s"
  by (simp_all add: maintainAutoLock_def startAutoLockTimer_frame cancelAutoLockTimer_frame)

lemma completionCheck_frame:
  "desiredTarget (completionCheck c s) = desiredTarget s"
  "pollTimer (completionCheck c s) = pollTimer s"
  "watchdog (completionCheck c s) = watchdog s"
  "autoLockTimer (completionCheck c s) = autoLockTimer s"
  "nextHandle (completionCheck c s) = nextHandle s"
  "awaiting (completionCheck c s) = awaiting s"
  "commands (completionCheck c s) = commands s"
  "updates (completionCheck c s) = updates s"
  by (simp_all add: completionCheck_def Let_def prim_defs split: option.splits)



lemma completionCheck_timers:
  "set (timers (completionCheck c s)) \<subseteq> set (timers s)"
  by (auto simp: completionCheck_def Let_def prim_defs split: option.splits)

lemma poll_resume_Inr:
  "poll_resume cfg (Inr sensors) s =
     completionCheck (toLockState sensors)
       (maintainAutoLock cfg (toLockState sensors)
          (updateValue (UpdLockCurrentState (toLockState sensors)) (setBatteryLevel sensors s)))"
  by (simp add: poll_resume_def Let_def)


subsection \<open>Polls\<close>



subsection \<open>The watchdog\<close>

text \<open>
  C5. A request that starts a session arms the watchdog: a timer with the fresh handle,
  the watchdog callback and the delay \<open>2 * lockPollMs\<close>, the only watchdog timer of a
  well-formed table. When that timer fires it leaves the table, sets \<open>inFlight\<close> to
  false whatever the state is, and calls the transport for the readings. When the
  readings arrive, reconciliation sets \<open>desiredTarget\<close> to \<open>SECURED\<close> if they
  translate to \<open>SECURED\<close> and to \<open>UNSECURED\<close> otherwise, and its last call updates
  the target-state characteristic to that value.
\<close>

theorem watchdog_lifecycle:
  "(\<not> inFlight s \<longrightarrow>
      (let s' = setTargetLockState cfg v s
       in inFlight s' \<and> watchdog s' = Some (nextHandle s) \<and>
          (nextHandle s, WatchdogCb, 2 * lockPollMs cfg) \<in> set (timers s') \<and>
          (handles_ok s \<longrightarrow>
             filter (\<lambda>t. fst (snd t) = WatchdogCb) (timers s') = [(nextHandle s, WatchdogCb, 2 * lockPollMs cfg)]))) \<and>
   (watchdog s = Some h \<and> find (\<lambda>t. fst t = h) (timers s) = Some (h, WatchdogCb, d) \<longrightarrow>
      (let s' = fire cfg h s
       in \<not> inFlight s' \<and> \<not> watchdog_armed s' \<and> awaiting s' = awaiting s @ [ReconcileK] \<and>
          desiredTarget s' = desiredTarget s)) \<and>
   (let (res, s') = reconcileTargetWithCurrent_resume (Inr sensors) s;
        t = (if toLockState sensors = SECURED then T_SECURED else T_UNSECURED)
    in res = Inr () \<and> desiredTarget s' = Some t \<and> last (updates s') = UpdLockTargetState t)"
proof (intro conjI)
  show "\<not> inFlight s \<longrightarrow>
      (let s' = setTargetLockState cfg v s
       in inFlight s' \<and> watchdog s' = Some (nextHandle s) \<and>
          (nextHandle s, WatchdogCb, 2 * lockPollMs cfg) \<in> set (timers s') \<and>
          (handles_ok s \<longrightarrow>
             filter (\<lambda>t. fst (snd t) = WatchdogCb) (timers s') = [(nextHandle s, WatchdogCb, 2 * lockPollMs cfg)]))"
    by (auto simp: setTargetLockState_def Let_def updateValue_def log_msg_def startWatchdog_def
      sendLockCommand_def await_toggleLock_def setTimeout_def clearTimeout_def handles_ok_def
      list_all_iff filter_empty_conv split: option.splits)
next
  show "watchdog s = Some h \<and> find (\<lambda>t. fst t = h) (timers s) = Some (h, WatchdogCb, d) \<longrightarrow>
      (let s' = fire cfg h s
       in \<not> inFlight s' \<and> \<not> watchdog_armed s' \<and> awaiting s' = awaiting s @ [ReconcileK] \<and>
          desiredTarget s' = desiredTarget s)"
    by (auto simp: fire_def watchdog_expired_def reconcileTargetWithCurrent_def getLockState_def
        await_sensors_def log_msg_def Let_def clearTimeout_def watchdog_armed_def)
next
  show "let (res, s') = reconcileTargetWithCurrent_resume (Inr sensors) s;
        t = (if toLockState sensors = SECURED then T_SECURED else T_UNSECURED)
    in res = Inr () \<and> desiredTarget s' = Some t \<and> last (updates s') = UpdLockTargetState t"
    by (simp add: reconcileTargetWithCurrent_resume_def getLockState_resume_def Let_def updateValue_def)
qed


theorem watchdog_lifecycle_witness:
  "(let s1 = setTargetLockState example_cfg (VNum 1) (init example_cfg);
        s2 = fire example_cfg 1 s1
    in inFlight s1 \<and> watchdog s1 = Some 1 \<and>
       filter (\<lambda>t. fst (snd t) = WatchdogCb) (timers s1) = [(1, WatchdogCb, 10000)] \<and>
       \<not> inFlight s2 \<and> \<not> watchdog_armed s2 \<and> awaiting s2 = [SendLockCommandK, ReconcileK] \<and>
       desiredTarget (snd (reconcileTargetWithCurrent_resume (Inr [reading ''lock'' ''unlocked'']) s2))
         = Some T_UNSECURED)"
proof -
  let ?init = "init example_cfg"
  let ?started = "setTargetLockState example_cfg (VNum 1) ?init"
  let ?expired = "fire example_cfg 1 ?started"
  have h0: "\<not> inFlight ?init" "handles_ok ?init" "nextHandle ?init = 1"
    by (simp_all add: init_def handles_ok_def)
  have a: "inFlight ?started \<and> watchdog ?started = Some 1 \<and>
       filter (\<lambda>t. fst (snd t) = WatchdogCb) (timers ?started) = [(1, WatchdogCb, 10000)]"
    using watchdog_lifecycle[where s = ?init and cfg = example_cfg and v = "VNum 1", THEN conjunct1] h0
    by (simp add: Let_def example_cfg_def)
  have h1: "watchdog ?started = Some 1 \<and> find (\<lambda>t. fst t = 1) (timers ?started) = Some (1, WatchdogCb, 10000)"
    by (simp add: setTargetLockState_first)
  have b: "\<not> inFlight ?expired \<and> \<not> watchdog_armed ?expired \<and> awaiting ?expired = [SendLockCommandK, ReconcileK]"
    using watchdog_lifecycle[where s = ?started and h = 1 and d = 10000 and cfg = example_cfg,
        THEN conjunct2, THEN conjunct1] h1
    by (simp add: Let_def setTargetLockState_first)
  have h2: "toLockState [reading ''lock'' ''unlocked''] \<noteq> SECURED"
    by (simp add: toLockState_def reading_def)
  have c: "desiredTarget (snd (reconcileTargetWithCurrent_resume (Inr [reading ''lock'' ''unlocked'']) ?expired))
         = Some T_UNSECURED"
    using watchdog_lifecycle[where sensors = "[reading ''lock'' ''unlocked'']" and s = ?expired,
        THEN conjunct2, THEN conjunct2] h2
    by (simp add: Let_def split_beta)
  from a b c show ?thesis unfolding Let_def by blast
qed

subsection \<open>Malformed battery readings\<close>

lemma find_filter_other:
  "(\<And>x. P x \<Longrightarrow> Q x) \<Longrightarrow> find P (filter Q xs) = find P xs"
  by (induction xs) auto

lemma toLockState_ignores_battery:
  "toLockState (filter (\<lambda>x. sensorType x \<noteq> ''battery'') sensors) = toLockState sensors"
proof -
  have "find (\<lambda>s. sensorType s = ''lock'') (filter (\<lambda>x. sensorType x \<noteq> ''battery'') sensors)
        = find (\<lambda>s. sensorType s = ''lock'') sensors"
    by (rule find_filter_other) simp
  then show ?thesis by (simp add: toLockState_def)
qed

lemma setBatteryLevel_no_battery:
  "setBatteryLevel (filter (\<lambda>x. sensorType x \<noteq> ''battery'') sensors) s = s"
proof -
  have "find (\<lambda>s. sensorType s = ''battery'') (filter (\<lambda>x. sensorType x \<noteq> ''battery'') sensors) = None"
    by (simp add: find_None_iff)
  then show ?thesis by (simp add: setBatteryLevel_def)
qed

lemma same_lock_handling_updateValue:
  "same_lock_handling s t \<Longrightarrow> same_lock_handling (updateValue u s) (updateValue u t)"
  by (simp add: same_lock_handling_def updateValue_def lock_updates_def)

lemma same_lock_handling_maintainAutoLock:
  "same_lock_handling s t \<Longrightarrow>
   same_lock_handling (maintainAutoLock cfg c s) (maintainAutoLock cfg c t)"
  by (cases "autoLockTimer t")
     (simp_all add: same_lock_handling_def maintainAutoLock_def startAutoLockTimer_def
        cancelAutoLockTimer_def Let_def prim_defs lock_updates_def)

lemma same_lock_handling_completionCheck:
  "same_lock_handling s t \<Longrightarrow>
   same_lock_handling (completionCheck c s) (completionCheck c t)"
  by (cases "watchdog t")
     (simp_all add: same_lock_handling_def completionCheck_def Let_def prim_defs lock_updates_def)

lemma same_lock_handling_setBatteryLevel:
  "same_lock_handling (setBatteryLevel sensors s) s"
  by (simp add: same_lock_handling_def setBatteryLevel_frame setBatteryLevel_lock_updates)

text \<open>
  When \<open>parseInt\<close> gives \<open>NaN\<close>: after the leading white space and one sign, the
  value does not start with a digit. A no-break space before the digits is white space,
  so such a value is a number.
\<close>

lemma parseInt_NaN_iff:
  "(parseInt str = NaN) =
     (case dropWhile isWhiteSpace str of
        [] \<Rightarrow> True
      | c # rest \<Rightarrow>
          takeWhile isDigit (if c = CHR ''+'' \<or> c = CHR ''-'' then rest else c # rest) = [])"
proof -
  define S where "S = dropWhile isWhiteSpace str"
  show ?thesis
    unfolding parseInt_def Let_def S_def[symmetric] by (cases S) simp_all
qed

lemma parseInt_nbsp: "parseInt [CHR 0xA0, CHR ''8'', CHR ''7''] = Num 87"
  by (simp add: parseInt_def isWhiteSpace_def isDigit_def digitsValue_def to_double_def)

text \<open>
  C8, as the claim states it, fails: a poll whose battery reading does not parse still
  calls \<open>updateValue\<close> on both battery characteristics, and what it logs is the usual
  battery line, not a failure.
\<close>

theorem malformed_battery_counterexample:
  "find (\<lambda>s. sensorType s = ''battery'') [reading ''battery'' ''n/a''] = Some (reading ''battery'' ''n/a'') \<and>
   parseInt (sensorValue (reading ''battery'' ''n/a'')) = NaN \<and>
   battery_updates (init example_cfg) = [] \<and>
   battery_updates (poll_resume example_cfg (Inr [reading ''battery'' ''n/a'']) (init example_cfg)) =
     [UpdBatteryLevel NaN, UpdStatusLowBattery BATTERY_LEVEL_LOW] \<and>
   logs (poll_resume example_cfg (Inr [reading ''battery'' ''n/a'']) (init example_cfg)) =
     logs (init example_cfg) @ [(Info, ''Lock battery: '', [NumArg NaN])]"
  by (simp add: reading_def parseInt_def isWhiteSpace_def isDigit_def battery_updates_def init_def
      poll_resume_def maintainAutoLock_def completionCheck_def setBatteryLevel_def Let_def
      updateValue_def log_msg_def toLockState_def example_cfg_def)

text \<open>
  C8, amended. For every poll response whose battery reading does not parse as an
  integer (\<open>parseInt\<close> gives \<open>NaN\<close>), \<open>setBatteryLevel\<close> updates the battery level
  to \<open>NaN\<close> and the low-battery status to \<open>BATTERY_LEVEL_LOW\<close> and logs the usual
  battery line with \<open>NaN\<close>.
  Lock-state handling is unaffected: apart from these battery updates and the log, the
  poll leaves the state it would leave if the response had no battery reading
  (\<open>same_lock_handling\<close>), and it updates the current-state characteristic with the
  translated lock state.
\<close>

theorem malformed_battery:
  assumes "find (\<lambda>s. sensorType s = ''battery'') sensors = Some b"
    and "parseInt (sensorValue b) = NaN"
  shows "setBatteryLevel sensors s =
           s\<lparr>updates := updates s @ [UpdBatteryLevel NaN, UpdStatusLowBattery BATTERY_LEVEL_LOW],
             logs := logs s @ [(Info, ''Lock battery: '', [NumArg NaN])]\<rparr> \<and>
         same_lock_handling (poll_resume cfg (Inr sensors) s)
           (poll_resume cfg (Inr (filter (\<lambda>x. sensorType x \<noteq> ''battery'') sensors)) s) \<and>
         lock_updates (poll_resume cfg (Inr sensors) s) =
           lock_updates s @ [UpdLockCurrentState (toLockState sensors)]"
proof (intro conjI)
  show "setBatteryLevel sensors s =
           s\<lparr>updates := updates s @ [UpdBatteryLevel NaN, UpdStatusLowBattery BATTERY_LEVEL_LOW],
             logs := logs s @ [(Info, ''Lock battery: '', [NumArg NaN])]\<rparr>"
    using assms by (simp add: setBatteryLevel_def Let_def updateValue_def log_msg_def)
  show "same_lock_handling (poll_resume cfg (Inr sensors) s)
           (poll_resume cfg (Inr (filter (\<lambda>x. sensorType x \<noteq> ''battery'') sensors)) s)"
    unfolding poll_resume_Inr toLockState_ignores_battery setBatteryLevel_no_battery
    by (intro same_lock_handling_completionCheck same_lock_handling_maintainAutoLock
        same_lock_handling_updateValue same_lock_handling_setBatteryLevel)
  show "lock_updates (poll_resume cfg (Inr sensors) s) =
           lock_updates s @ [UpdLockCurrentState (toLockState sensors)]"
    using setBatteryLevel_lock_updates[of sensors s]
    by (simp add: poll_resume_Inr lock_updates_def completionCheck_frame maintainAutoLock_frame
        updateValue_def)
qed

theorem malformed_battery_witness:
  "setBatteryLevel [reading ''battery'' ''n/a'', reading ''lock'' ''unlocked''] (init example_cfg) =
     (init example_cfg)
       \<lparr>updates := updates (init example_cfg) @ [UpdBatteryLevel NaN, UpdStatusLowBattery BATTERY_LEVEL_LOW],
        logs := logs (init example_cfg) @ [(Info, ''Lock battery: '', [NumArg NaN])]\<rparr> \<and>
   lock_updates (poll_resume example_cfg
       (Inr [reading ''battery'' ''n/a'', reading ''lock'' ''unlocked'']) (init example_cfg)) =
     [UpdLockCurrentState UNSECURED]"
proof -
  let ?b = "reading ''battery'' ''n/a''"
  let ?sensors = "[?b, reading ''lock'' ''unlocked'']"
  have h1: "find (\<lambda>s. sensorType s = ''battery'') ?sensors = Some ?b"
    by (simp add: reading_def)
  have h2: "parseInt (sensorValue ?b) = NaN"
    by (simp add: reading_def parseInt_def isWhiteSpace_def isDigit_def)
  have h3: "toLockState ?sensors = UNSECURED"
    by (simp add: toLockState_def reading_def)
  have h4: "lock_updates (init example_cfg) = []"
    by (simp add: lock_updates_def init_def)
  note m = malformed_battery[OF h1 h2, of "init example_cfg" example_cfg]
  have A: "setBatteryLevel ?sensors (init example_cfg) =
     (init example_cfg)
       \<lparr>updates := updates (init example_cfg) @ [UpdBatteryLevel NaN, UpdStatusLowBattery BATTERY_LEVEL_LOW],
        logs := logs (init example_cfg) @ [(Info, ''Lock battery: '', [NumArg NaN])]\<rparr>"
    using m by (rule conjunct1)
  have B: "lock_updates (poll_resume example_cfg (Inr ?sensors) (init example_cfg)) =
      lock_updates (init example_cfg) @ [UpdLockCurrentState (toLockState ?sensors)]"
    using m by blast
  have C: "lock_updates (poll_resume example_cfg (Inr ?sensors) (init example_cfg)) = [UpdLockCurrentState UNSECURED]"
    unfolding B h3 h4 by simp
  from A C show ?thesis by (rule conjI)
qed

subsection \<open>Failing sensor queries\<close>

text \<open>
  C9, as the claim states it, fails for the on-demand read: when the query of
  \<open>getLockState\<close> fails, the error goes back to the caller and nothing is logged.
\<close>

theorem query_failure_counterexample:
  "fst (getLockState_resume (Inl (AxiosError ''timeout'')) (init example_cfg)) = Inl (AxiosError ''timeout'') \<and>
   logs (snd (getLockState_resume (Inl (AxiosError ''timeout'')) (init example_cfg))) = logs (init example_cfg)"
  by (simp add: getLockState_resume_def)

text \<open>
  C9, amended. A failing poll query is logged and swallowed. A failing on-demand read
  for a HomeKit get handler (\<open>getLockState\<close>, and \<open>getTargetLockState\<close> when it falls
  back to it) is not logged; the error is what the handler returns. Whichever function
  was waiting for the failed query, reconciliation included, nothing but the log
  changes: session, \<open>desiredTarget\<close>, characteristics, commands and timers are as before,
  so the polling interval is still in the table and its next tick queries again. Where
  the error of a failed reconciliation query goes is not part of this statement.
\<close>

theorem query_failure:
  "poll_resume cfg (Inl e) s =
     s\<lparr>logs := logs s @ [(Warn, ''Failed to fetch status of lock'', [ErrArg e])]\<rparr> \<and>
   getLockState_resume (Inl e) s = (Inl e, s) \<and>
   getTargetLockState_resume (Inl e) s = (Inl e, s) \<and>
   snd (reconcileTargetWithCurrent_resume (Inl e) s) = s \<and>
   (let s' = step cfg s (SensorsSettled k (Inl e))
    in inFlight s' = inFlight s \<and> desiredTarget s' = desiredTarget s \<and>
       pollTimer s' = pollTimer s \<and> watchdog s' = watchdog s \<and>
       autoLockTimer s' = autoLockTimer s \<and> timers s' = timers s \<and>
       nextHandle s' = nextHandle s \<and> commands s' = commands s \<and> updates s' = updates s \<and>
       (find (\<lambda>t. fst t = h) (timers s) = Some (h, PollCb, d) \<longrightarrow>
          awaiting (step cfg s' (TimerFired h)) = awaiting s' @ [PollK]))"
proof (intro conjI)
  show "poll_resume cfg (Inl e) s =
     s\<lparr>logs := logs s @ [(Warn, ''Failed to fetch status of lock'', [ErrArg e])]\<rparr>"
    by (simp add: poll_resume_def log_msg_def)
  show g: "getLockState_resume (Inl e) s = (Inl e, s)" for s
    by (simp add: getLockState_resume_def)
  show "getTargetLockState_resume (Inl e) s = (Inl e, s)"
    by (simp add: getTargetLockState_resume_def g)
  show "snd (reconcileTargetWithCurrent_resume (Inl e) s) = s"
    by (simp add: reconcileTargetWithCurrent_resume_def g)
  show "let s' = step cfg s (SensorsSettled k (Inl e))
    in inFlight s' = inFlight s \<and> desiredTarget s' = desiredTarget s \<and>
       pollTimer s' = pollTimer s \<and> watchdog s' = watchdog s \<and>
       autoLockTimer s' = autoLockTimer s \<and> timers s' = timers s \<and>
       nextHandle s' = nextHandle s \<and> commands s' = commands s \<and> updates s' = updates s \<and>
       (find (\<lambda>t. fst t = h) (timers s) = Some (h, PollCb, d) \<longrightarrow>
          awaiting (step cfg s' (TimerFired h)) = awaiting s' @ [PollK])"
    by (cases k)
       (simp_all add: Let_def resume_def poll_resume_def log_msg_def getTargetLockState_resume_def
          reconcileTargetWithCurrent_resume_def g fire_def poll_def await_sensors_def)
qed

theorem query_failure_witness:
  "(let s = run example_cfg (init example_cfg)
              [OnSetLockTargetState (VNum 1), ToggleLockSettled (Inl (AxiosError ''503''))];
        s' = step example_cfg s (SensorsSettled ReconcileK (Inl (AxiosError ''timeout'')))
    in awaiting s = [ReconcileK] \<and>
       desiredTarget s' = Some T_SECURED \<and> timers s' = [(0, PollCb, 5000), (1, WatchdogCb, 10000)] \<and>
       awaiting (step example_cfg s' (TimerFired 0)) = awaiting s' @ [PollK])"
proof -
  let ?s = "run example_cfg (init example_cfg)
              [OnSetLockTargetState (VNum 1), ToggleLockSettled (Inl (AxiosError ''503''))]"
  let ?t = "step example_cfg ?s (SensorsSettled ReconcileK (Inl (AxiosError ''timeout'')))"
  have s: "?s = \<lparr>inFlight = False, desiredTarget = Some T_SECURED, pollTimer = Some 0,
      watchdog = Some 1, autoLockTimer = None,
      timers = [(0, PollCb, 5000), (1, WatchdogCb, 10000)], nextHandle = 2,
      awaiting = [ReconcileK], commands = [True], updates = [UpdLockTargetState T_SECURED],
      logs = [(Info, ''Dwelo Lock created!'', []),
              (Info, ''Setting lock to: '', [TargetArg T_SECURED]),
              (Warn, ''Lock command failed:'', [ErrArg (AxiosError ''503'')])]\<rparr>"
    by (simp add: eval_defs)
  have h: "find (\<lambda>t. fst t = 0) (timers ?s) = Some (0, PollCb, 5000)"
    by (simp add: s)
  note q = query_failure[of example_cfg "AxiosError ''timeout''" ?s ReconcileK 0 5000,
      unfolded Let_def, THEN conjunct2, THEN conjunct2, THEN conjunct2, THEN conjunct2]
  have 1: "desiredTarget ?t = desiredTarget ?s" "timers ?t = timers ?s"
    using q by blast+
  have 2: "awaiting (step example_cfg ?t (TimerFired 0)) = awaiting ?t @ [PollK]"
    using q h by blast
  have 3: "awaiting ?s = [ReconcileK]" "desiredTarget ?s = Some T_SECURED"
    "timers ?s = [(0, PollCb, 5000), (1, WatchdogCb, 10000)]"
    by (simp_all add: s)
  show ?thesis unfolding Let_def using 1 2 3 by simp
qed

subsection \<open>Timer handles stay well-formed\<close>

text \<open>
  The constructor leaves a well-formed state and every event keeps it so; hence
  \<open>handles_ok\<close> holds in every state the accessory can reach.
\<close>

lemma handles_ok_cong:
  "timers t = timers s \<Longrightarrow> nextHandle t = nextHandle s \<Longrightarrow> watchdog t = watchdog s \<Longrightarrow>
   autoLockTimer t = autoLockTimer s \<Longrightarrow> handles_ok t = handles_ok s"
  by (simp add: handles_ok_def)

lemma handles_ok_clearTimeout: "handles_ok s \<Longrightarrow> handles_ok (clearTimeout h s)"
  by (auto simp: handles_ok_def clearTimeout_def list_all_iff distinct_map_filter split: option.splits)

lemma handles_ok_startWatchdog: "handles_ok s \<Longrightarrow> handles_ok (startWatchdog cfg s)"
  by (cases "watchdog s"; cases "autoLockTimer s")
     (auto simp: handles_ok_def startWatchdog_def Let_def prim_defs list_all_iff distinct_map_filter
        split: option.splits)

lemma handles_ok_startAutoLockTimer: "handles_ok s \<Longrightarrow> handles_ok (startAutoLockTimer cfg s)"
  by (cases "autoLockTimer s"; cases "watchdog s")
     (auto simp: handles_ok_def startAutoLockTimer_def Let_def prim_defs list_all_iff distinct_map_filter
        split: option.splits)

lemma handles_ok_cancelAutoLockTimer: "handles_ok s \<Longrightarrow> handles_ok (cancelAutoLockTimer s)"
proof (cases "autoLockTimer s")
  case None
  assume "handles_ok s"
  then show ?thesis using None by (simp add: cancelAutoLockTimer_def)
next
  case (Some a)
  assume "handles_ok s"
  then show ?thesis using Some
    by (auto simp: handles_ok_def cancelAutoLockTimer_def prim_defs list_all_iff distinct_map_filter
        split: option.splits)
qed

lemma handles_ok_maintainAutoLock: "handles_ok s \<Longrightarrow> handles_ok (maintainAutoLock cfg c s)"
  by (simp add: maintainAutoLock_def handles_ok_startAutoLockTimer handles_ok_cancelAutoLockTimer)

lemma handles_ok_completionCheck: "handles_ok s \<Longrightarrow> handles_ok (completionCheck c s)"
proof -
  assume h: "handles_ok s"
  have a: "handles_ok (s\<lparr>inFlight := False\<rparr>)" using h by (simp add: handles_ok_def)
  have b: "handles_ok (clearTimeout w (s\<lparr>inFlight := False\<rparr>))" for w
    using a by (rule handles_ok_clearTimeout)
  have c: "handles_ok (log_msg l m args t) = handles_ok t" for l m args t
    by (simp add: handles_ok_def log_msg_def)
  show ?thesis using h a b by (simp add: completionCheck_def Let_def c split: option.splits)
qed

lemma handles_ok_poll_resume: "handles_ok s \<Longrightarrow> handles_ok (poll_resume cfg r s)"
proof (cases r)
  case (Inl e)
  assume "handles_ok s"
  then show ?thesis using Inl by (simp add: poll_resume_def log_msg_def handles_ok_def)
next
  case (Inr sensors)
  assume h: "handles_ok s"
  have "handles_ok (updateValue (UpdLockCurrentState (toLockState sensors)) (setBatteryLevel sensors s))"
    using h by (simp add: handles_ok_def updateValue_def setBatteryLevel_frame)
  then show ?thesis unfolding Inr poll_resume_Inr
    by (intro handles_ok_completionCheck handles_ok_maintainAutoLock)
qed

lemma handles_ok_setTargetLockState: "handles_ok s \<Longrightarrow> handles_ok (setTargetLockState cfg v s)"
proof -
  assume h: "handles_ok s"
  have a: "handles_ok (startWatchdog cfg t)" if "handles_ok t" for t
    using that by (rule handles_ok_startWatchdog)
  have b: "handles_ok (sendLockCommand tg (s\<lparr>desiredTarget := d, updates := u, logs := l, inFlight := True\<rparr>))"
    for tg d u l
    using h by (simp add: handles_ok_def sendLockCommand_def await_toggleLock_def)
  show ?thesis
    using h by (auto simp: setTargetLockState_def Let_def updateValue_def log_msg_def intro!: a b)
      (simp_all add: handles_ok_def)
qed

lemma handles_ok_prims:
  "handles_ok (log_msg l m args s) = handles_ok s"
  "handles_ok (updateValue u s) = handles_ok s"
  "handles_ok (await_sensors k s) = handles_ok s"
  "handles_ok (await_toggleLock b s) = handles_ok s"
  "handles_ok (s\<lparr>inFlight := f\<rparr>) = handles_ok s"
  "handles_ok (s\<lparr>desiredTarget := d\<rparr>) = handles_ok s"
  "handles_ok (s\<lparr>awaiting := a\<rparr>) = handles_ok s"
  "handles_ok (setBatteryLevel x s) = handles_ok s"
  by (simp_all add: handles_ok_def prim_defs setBatteryLevel_frame)

lemma handles_ok_getLockState_resume:
  "handles_ok s \<Longrightarrow> handles_ok (snd (getLockState_resume r s))"
  by (cases r) (simp_all add: getLockState_resume_def Let_def handles_ok_prims)

lemma handles_ok_resume: "handles_ok s \<Longrightarrow> handles_ok (resume cfg k r s)"
proof (cases k)
  case PollK
  assume "handles_ok s"
  then show ?thesis using PollK by (simp add: resume_def handles_ok_poll_resume)
next
  case GetLockStateK
  assume "handles_ok s"
  then show ?thesis using GetLockStateK by (simp add: resume_def handles_ok_getLockState_resume)
next
  case GetTargetLockStateK
  assume "handles_ok s"
  then show ?thesis using GetTargetLockStateK handles_ok_getLockState_resume[of s r]
    by (auto simp: resume_def getTargetLockState_resume_def split: prod.splits sum.splits)
next
  case ReconcileK
  assume "handles_ok s"
  then show ?thesis using ReconcileK handles_ok_getLockState_resume[of s r]
    by (auto simp: resume_def reconcileTargetWithCurrent_resume_def Let_def handles_ok_prims
        split: prod.splits sum.splits)
next
  case SendLockCommandK
  assume "handles_ok s"
  then show ?thesis using SendLockCommandK by (simp add: resume_def)
qed

lemma handles_ok_watchdog_expired: "handles_ok s \<Longrightarrow> handles_ok (watchdog_expired s)"
  by (simp add: watchdog_expired_def reconcileTargetWithCurrent_def getLockState_def Let_def handles_ok_prims)

lemma handles_ok_autoLock_expired: "handles_ok s \<Longrightarrow> handles_ok (autoLock_expired cfg s)"
  by (simp add: autoLock_expired_def Let_def handles_ok_prims handles_ok_setTargetLockState)

lemma handles_ok_fire: "handles_ok s \<Longrightarrow> handles_ok (fire cfg h s)"
  by (auto simp: fire_def poll_def handles_ok_prims handles_ok_watchdog_expired
      handles_ok_autoLock_expired handles_ok_clearTimeout split: option.splits timer_cb.splits)

lemma handles_ok_sendLockCommand_resume: "handles_ok s \<Longrightarrow> handles_ok (sendLockCommand_resume r s)"
  by (cases r) (simp_all add: sendLockCommand_resume_def reconcileTargetWithCurrent_def getLockState_def
      Let_def handles_ok_prims)

lemma handles_ok_step: "handles_ok s \<Longrightarrow> handles_ok (step cfg s e)"
  by (cases e) (simp_all add: getLockState_def getTargetLockState_def handles_ok_prims
      handles_ok_setTargetLockState handles_ok_fire handles_ok_resume handles_ok_sendLockCommand_resume
      split: option.splits)

lemma handles_ok_run: "handles_ok s \<Longrightarrow> handles_ok (run cfg s es)"
  unfolding run_def by (induction es arbitrary: s) (simp_all add: handles_ok_step)

lemma handles_ok_init: "handles_ok (init cfg)"
  by (simp add: handles_ok_def init_def)

subsection \<open>Session and watchdog\<close>

text \<open>
  In every reachable state a session in flight has its watchdog armed: the watchdog is
  armed when the session starts, and only the paths that end the session, or a new
  \<open>startWatchdog\<close>, take it out of the table.
\<close>

lemma armed_cong:
  "timers t = timers s \<Longrightarrow> armed x t = armed x s"
  by (cases x) simp_all

lemma armed_updates:
  "armed x (s\<lparr>inFlight := f\<rparr>) = armed x s"
  "armed x (s\<lparr>desiredTarget := dt\<rparr>) = armed x s"
  "armed x (s\<lparr>watchdog := w\<rparr>) = armed x s"
  "armed x (s\<lparr>autoLockTimer := al\<rparr>) = armed x s"
  "armed x (s\<lparr>nextHandle := n\<rparr>) = armed x s"
  "armed x (s\<lparr>awaiting := aw\<rparr>) = armed x s"
  "armed x (s\<lparr>commands := cs\<rparr>) = armed x s"
  "armed x (s\<lparr>updates := us\<rparr>) = armed x s"
  "armed x (s\<lparr>logs := lg\<rparr>) = armed x s"
  by (cases x; simp)+

lemma in_handles_filter:
  "h \<noteq> a \<Longrightarrow> (h \<in> fst ` set (filter (\<lambda>t. fst t \<noteq> a) ts)) = (h \<in> fst ` set ts)"
proof
  assume "h \<in> fst ` set (filter (\<lambda>t. fst t \<noteq> a) ts)"
  then show "h \<in> fst ` set ts" by auto
next
  assume n: "h \<noteq> a" and "h \<in> fst ` set ts"
  then obtain t where t: "t \<in> set ts" "fst t = h" by auto
  with n have "t \<in> set (filter (\<lambda>t. fst t \<noteq> a) ts)" by simp
  with t(2) show "h \<in> fst ` set (filter (\<lambda>t. fst t \<noteq> a) ts)" by (metis imageI)
qed

lemma handles_fields_apart:
  assumes "handles_ok s" and "watchdog s = Some w" and "autoLockTimer s = Some a"
    and "w \<in> fst ` set (timers s) \<or> a \<in> fst ` set (timers s)"
  shows "w \<noteq> a"
proof
  assume e: "w = a"
  from assms(4) e obtain t where t: "t \<in> set (timers s)" "fst t = a" by auto
  from assms(1) t assms(2,3) e have "fst (snd t) = WatchdogCb" "fst (snd t) = AutoLockCb"
    by (auto simp: handles_ok_def list_all_iff)
  then show False by simp
qed

lemma armed_clear_other:
  assumes "handles_ok s" and "watchdog s = Some w" and "autoLockTimer s = Some a"
  shows "armed (Some w) (clearTimeout a s) = armed (Some w) s"
    and "armed (Some a) (clearTimeout w s) = armed (Some a) s"
proof -
  show "armed (Some w) (clearTimeout a s) = armed (Some w) s"
  proof (cases "w \<in> fst ` set (timers s)")
    case True
    then have "w \<noteq> a" using handles_fields_apart[OF assms] by simp
    then show ?thesis using in_handles_filter[of w a "timers s"] by (simp add: clearTimeout_def)
  next
    case False
    then show ?thesis by (auto simp: clearTimeout_def)
  qed
  show "armed (Some a) (clearTimeout w s) = armed (Some a) s"
  proof (cases "a \<in> fst ` set (timers s)")
    case True
    then have "w \<noteq> a" using handles_fields_apart[OF assms] by simp
    then have "a \<noteq> w" by simp
    then show ?thesis using in_handles_filter[of a w "timers s"] by (simp add: clearTimeout_def)
  next
    case False
    then show ?thesis by (auto simp: clearTimeout_def)
  qed
qed

lemma watchdog_armed_clear_autoLock:
  "handles_ok s \<Longrightarrow> autoLockTimer s = Some a \<Longrightarrow>
   watchdog_armed (clearTimeout a s) = watchdog_armed s"
  using armed_clear_other(1)[of s _ a]
  by (cases "watchdog s") (simp_all add: watchdog_armed_def clearTimeout_def)

lemma armed_fresh:
  "pred_option (\<lambda>h. h < n) x \<Longrightarrow>
   armed x (t\<lparr>timers := ts @ [(n, cb, d)]\<rparr>) = armed x (t\<lparr>timers := ts\<rparr>)"
  by (cases x) auto

lemma watchdog_armed_startAutoLockTimer:
  "handles_ok s \<Longrightarrow> watchdog_armed (startAutoLockTimer cfg s) = watchdog_armed s"
proof -
  assume h: "handles_ok s"
  have n: "armed (watchdog s) (t\<lparr>timers := ts @ [(nextHandle s, cb, d)]\<rparr>) = armed (watchdog s) (t\<lparr>timers := ts\<rparr>)"
    for t ts cb d
    using h by (intro armed_fresh) (simp add: handles_ok_def)
  show ?thesis
  proof (cases "autoLockTimer s")
    case None
    then show ?thesis
      using n[where t = s and ts = "timers s"]
      by (simp add: watchdog_armed_def startAutoLockTimer_def Let_def prim_defs armed_updates)
  next
    case (Some a)
    have "armed (watchdog s) (clearTimeout a s) = armed (watchdog s) s"
      using watchdog_armed_clear_autoLock[OF h Some] by (simp add: watchdog_armed_def clearTimeout_def)
    then show ?thesis
      using Some n[where t = s and ts = "filter (\<lambda>t. fst t \<noteq> a) (timers s)"]
      by (simp add: watchdog_armed_def startAutoLockTimer_def Let_def prim_defs armed_updates)
  qed
qed

lemma watchdog_armed_cancelAutoLockTimer:
  "handles_ok s \<Longrightarrow> watchdog_armed (cancelAutoLockTimer s) = watchdog_armed s"
proof (cases "autoLockTimer s")
  case None
  then show ?thesis by (simp add: cancelAutoLockTimer_def)
next
  case (Some a)
  assume "handles_ok s"
  then show ?thesis
    using Some watchdog_armed_clear_autoLock[of s a]
    by (simp add: watchdog_armed_def cancelAutoLockTimer_def clearTimeout_def armed_updates)
qed

lemma watchdog_armed_maintainAutoLock:
  "handles_ok s \<Longrightarrow> watchdog_armed (maintainAutoLock cfg c s) = watchdog_armed s"
  by (simp add: maintainAutoLock_def watchdog_armed_startAutoLockTimer watchdog_armed_cancelAutoLockTimer)

lemma watchdog_armed_prims:
  "watchdog_armed (log_msg l m args s) = watchdog_armed s"
  "watchdog_armed (updateValue u s) = watchdog_armed s"
  "watchdog_armed (await_sensors k s) = watchdog_armed s"
  "watchdog_armed (await_toggleLock b s) = watchdog_armed s"
  "watchdog_armed (s\<lparr>inFlight := f\<rparr>) = watchdog_armed s"
  "watchdog_armed (s\<lparr>desiredTarget := d\<rparr>) = watchdog_armed s"
  "watchdog_armed (s\<lparr>awaiting := a\<rparr>) = watchdog_armed s"
  "watchdog_armed (setBatteryLevel x s) = watchdog_armed s"
  "watchdog_armed (s\<lparr>logs := lg\<rparr>) = watchdog_armed s"
  "watchdog_armed (s\<lparr>updates := us\<rparr>) = watchdog_armed s"
  "watchdog_armed (s\<lparr>commands := cs\<rparr>) = watchdog_armed s"
  by (simp_all add: watchdog_armed_def prim_defs setBatteryLevel_frame armed_updates
      armed_cong[of "setBatteryLevel x s" s])

lemma completionCheck_still_inFlight:
  "inFlight (completionCheck c s) \<Longrightarrow> completionCheck c s = s"
  by (auto simp: completionCheck_def Let_def prim_defs split: option.splits if_splits)

lemma session_armed_poll_resume:
  assumes "handles_ok s" and "inFlight s \<longrightarrow> watchdog_armed s"
  shows "inFlight (poll_resume cfg r s) \<longrightarrow> watchdog_armed (poll_resume cfg r s)"
proof (cases r)
  case (Inl e)
  then show ?thesis using assms by (simp add: poll_resume_def watchdog_armed_prims log_msg_def)
next
  case (Inr sensors)
  let ?s2 = "updateValue (UpdLockCurrentState (toLockState sensors)) (setBatteryLevel sensors s)"
  let ?s3 = "maintainAutoLock cfg (toLockState sensors) ?s2"
  have h2: "handles_ok ?s2" using assms(1) by (simp add: handles_ok_prims)
  have w: "watchdog_armed ?s3 = watchdog_armed s"
    using h2 by (simp add: watchdog_armed_maintainAutoLock watchdog_armed_prims)
  have f: "inFlight ?s3 = inFlight s"
    by (simp add: maintainAutoLock_frame updateValue_def setBatteryLevel_frame)
  show ?thesis
  proof
    assume i: "inFlight (poll_resume cfg r s)"
    then have e: "poll_resume cfg r s = ?s3"
      unfolding Inr poll_resume_Inr by (rule completionCheck_still_inFlight)
    with i f w assms(2) show "watchdog_armed (poll_resume cfg r s)" by simp
  qed
qed

lemma session_armed_setTargetLockState:
  assumes "inFlight s \<longrightarrow> watchdog_armed s"
  shows "inFlight (setTargetLockState cfg v s) \<longrightarrow> watchdog_armed (setTargetLockState cfg v s)"
  using assms
  by (auto simp: setTargetLockState_def Let_def startWatchdog_def sendLockCommand_def prim_defs
      watchdog_armed_def armed_updates split: option.splits)

lemma find_timer:
  "find (\<lambda>t. fst t = h) ts = Some (h', cb, d) \<Longrightarrow> h' = h \<and> (h, cb, d) \<in> set ts"
  by (induction ts) (auto split: if_splits)

lemma session_armed_fire:
  assumes "handles_ok s" and "inFlight s \<longrightarrow> watchdog_armed s"
  shows "inFlight (fire cfg h s) \<longrightarrow> watchdog_armed (fire cfg h s)"
proof (cases "find (\<lambda>t. fst t = h) (timers s)")
  case None
  then show ?thesis using assms by (simp add: fire_def)
next
  case (Some t)
  obtain h' cb d where t: "t = (h', cb, d)" by (cases t) auto
  from Some t have m: "h' = h" "(h, cb, d) \<in> set (timers s)"
    using find_timer[of h "timers s" h' cb d] by simp_all
  show ?thesis
  proof (cases cb)
    case PollCb
    then show ?thesis using Some t assms(2) by (simp add: fire_def poll_def watchdog_armed_prims await_sensors_def)
  next
    case WatchdogCb
    then show ?thesis using Some t
      by (simp add: fire_def watchdog_expired_def reconcileTargetWithCurrent_def getLockState_def
          Let_def prim_defs)
  next
    case AutoLockCb
    have a: "autoLockTimer s = Some h"
      using assms(1) m AutoLockCb by (auto simp: handles_ok_def list_all_iff)
    have w: "watchdog_armed (clearTimeout h s) = watchdog_armed s"
      using assms(1) a by (rule watchdog_armed_clear_autoLock)
    have i: "inFlight (clearTimeout h s) = inFlight s" by (simp add: clearTimeout_def)
    let ?t = "log_msg Info ''Auto-lock timer elapsed. Relocking.'' [MinutesArg (autoLockMinutes cfg)] (clearTimeout h s)"
    have "inFlight ?t \<longrightarrow> watchdog_armed ?t"
      using assms(2) w i by (simp add: watchdog_armed_prims log_msg_def)
    then have "inFlight (setTargetLockState cfg (VNum (LockTargetState_num T_SECURED)) ?t) \<longrightarrow>
      watchdog_armed (setTargetLockState cfg (VNum (LockTargetState_num T_SECURED)) ?t)"
      by (rule session_armed_setTargetLockState)
    then show ?thesis using Some t AutoLockCb by (simp add: fire_def autoLock_expired_def Let_def)
  qed
qed

lemma getLockState_resume_frame:
  "inFlight (snd (getLockState_resume r s)) = inFlight s"
  "watchdog (snd (getLockState_resume r s)) = watchdog s"
  "autoLockTimer (snd (getLockState_resume r s)) = autoLockTimer s"
  "timers (snd (getLockState_resume r s)) = timers s"
  "nextHandle (snd (getLockState_resume r s)) = nextHandle s"
  "polled (updates (snd (getLockState_resume r s))) = polled (updates s)"
  "relock_attempts (snd (getLockState_resume r s)) = relock_attempts s"
  by (cases r; simp add: getLockState_resume_def Let_def log_msg_def setBatteryLevel_frame
      setBatteryLevel_polled setBatteryLevel_relock[unfolded relock_attempts_def] relock_attempts_def)+

lemma snd_getTargetLockState_resume:
  "snd (getTargetLockState_resume r s) = snd (getLockState_resume r s)"
  by (simp add: getTargetLockState_resume_def split: prod.splits sum.splits)

lemma reconcile_resume_frame:
  "inFlight (snd (reconcileTargetWithCurrent_resume r s)) = inFlight s"
  "watchdog (snd (reconcileTargetWithCurrent_resume r s)) = watchdog s"
  "autoLockTimer (snd (reconcileTargetWithCurrent_resume r s)) = autoLockTimer s"
  "timers (snd (reconcileTargetWithCurrent_resume r s)) = timers s"
  "nextHandle (snd (reconcileTargetWithCurrent_resume r s)) = nextHandle s"
  "polled (updates (snd (reconcileTargetWithCurrent_resume r s))) = polled (updates s)"
  "relock_attempts (snd (reconcileTargetWithCurrent_resume r s)) = relock_attempts s"
  using getLockState_resume_frame[of r s]
  by (auto simp: reconcileTargetWithCurrent_resume_def Let_def updateValue_def polled_append
      relock_attempts_def split: prod.splits sum.splits)

lemma session_armed_resume:
  assumes "handles_ok s" and "inFlight s \<longrightarrow> watchdog_armed s"
  shows "inFlight (resume cfg k r s) \<longrightarrow> watchdog_armed (resume cfg k r s)"
proof (cases k)
  case PollK
  then show ?thesis using session_armed_poll_resume[OF assms] by (simp add: resume_def)
next
  case GetLockStateK
  then show ?thesis using assms(2)
    by (simp add: resume_def watchdog_armed_def getLockState_resume_frame
        armed_cong[of "snd (getLockState_resume r s)" s])
next
  case GetTargetLockStateK
  then show ?thesis using assms(2)
    by (simp add: resume_def watchdog_armed_def snd_getTargetLockState_resume
        getLockState_resume_frame armed_cong[of "snd (getLockState_resume r s)" s])
next
  case ReconcileK
  then show ?thesis using assms(2)
    by (simp add: resume_def watchdog_armed_def reconcile_resume_frame
        armed_cong[of "snd (reconcileTargetWithCurrent_resume r s)" s])
next
  case SendLockCommandK
  then show ?thesis using assms(2) by (simp add: resume_def)
qed

lemma session_armed_step:
  assumes "handles_ok s" and "inFlight s \<longrightarrow> watchdog_armed s"
  shows "inFlight (step cfg s e) \<longrightarrow> watchdog_armed (step cfg s e)"
proof (cases e)
  case OnGetLockCurrentState
  then show ?thesis using assms(2) by (simp add: getLockState_def watchdog_armed_prims await_sensors_def)
next
  case OnGetLockTargetState
  then show ?thesis using assms(2)
    by (simp add: getTargetLockState_def getLockState_def watchdog_armed_prims await_sensors_def
        split: option.splits)
next
  case (OnSetLockTargetState v)
  then show ?thesis using session_armed_setTargetLockState[OF assms(2)] by simp
next
  case (TimerFired h)
  then show ?thesis using session_armed_fire[OF assms] by simp
next
  case (SensorsSettled k r)
  have "handles_ok (s\<lparr>awaiting := remove1 k (awaiting s)\<rparr>)"
    using assms(1) by (simp add: handles_ok_prims)
  moreover have "inFlight (s\<lparr>awaiting := remove1 k (awaiting s)\<rparr>) \<longrightarrow>
      watchdog_armed (s\<lparr>awaiting := remove1 k (awaiting s)\<rparr>)"
    using assms(2) by (simp add: watchdog_armed_prims)
  ultimately show ?thesis using SensorsSettled assms(2) session_armed_resume by simp
next
  case (ToggleLockSettled r)
  then show ?thesis using assms(2)
    by (cases r) (simp_all add: sendLockCommand_resume_def reconcileTargetWithCurrent_def
        getLockState_def Let_def prim_defs watchdog_armed_prims)
qed

lemma session_armed_run:
  "handles_ok s \<Longrightarrow> inFlight s \<longrightarrow> watchdog_armed s \<Longrightarrow>
   inFlight (run cfg s es) \<longrightarrow> watchdog_armed (run cfg s es)"
proof (induction es arbitrary: s)
  case Nil
  then show ?case by (simp add: run_def)
next
  case (Cons e es)
  have "inFlight (run cfg (step cfg s e) es) \<longrightarrow> watchdog_armed (run cfg (step cfg s e) es)"
    using Cons.prems by (intro Cons.IH handles_ok_step session_armed_step)
  then show ?case by (simp add: run_def)
qed

lemma inFlight_implies_watchdog_armed:
  "inFlight (run cfg (init cfg) es) \<longrightarrow> watchdog_armed (run cfg (init cfg) es)"
  by (rule session_armed_run) (simp_all add: handles_ok_init, simp add: init_def)

text \<open>
  C1 at the input where the code departs from it. A request starts a session and the
  \<open>toggleLock\<close> call is rejected: the \<open>catch\<close> block of \<open>sendLockCommand\<close> sets
  \<open>inFlight\<close> to false and reconciles, but does not clear the watchdog as the
  completion path of \<open>poll\<close> does. The session is over and the watchdog is still armed.
\<close>

theorem dispatch_failure_leaves_watchdog_armed:
  "(let s = run example_cfg (init example_cfg)
              [OnSetLockTargetState (VNum 1), ToggleLockSettled (Inl (AxiosError ''503''))]
    in \<not> inFlight s \<and> watchdog_armed s)"
  by (simp add: eval_defs watchdog_armed_def)

subsection \<open>The auto-lock timer and the observed state\<close>

lemma armed_clear_mono: "armed x (clearTimeout h s) \<Longrightarrow> armed x s"
  by (cases x) (auto simp: clearTimeout_def)

lemma autoLock_armed_prims:
  "autoLock_armed (log_msg l m args s) = autoLock_armed s"
  "autoLock_armed (updateValue u s) = autoLock_armed s"
  "autoLock_armed (await_sensors k s) = autoLock_armed s"
  "autoLock_armed (await_toggleLock b s) = autoLock_armed s"
  "autoLock_armed (s\<lparr>inFlight := f\<rparr>) = autoLock_armed s"
  "autoLock_armed (s\<lparr>desiredTarget := d\<rparr>) = autoLock_armed s"
  "autoLock_armed (s\<lparr>awaiting := a\<rparr>) = autoLock_armed s"
  "autoLock_armed (setBatteryLevel x s) = autoLock_armed s"
  "autoLock_armed (s\<lparr>logs := lg\<rparr>) = autoLock_armed s"
  "autoLock_armed (s\<lparr>updates := us\<rparr>) = autoLock_armed s"
  "autoLock_armed (s\<lparr>commands := cs\<rparr>) = autoLock_armed s"
  by (simp_all add: autoLock_armed_def prim_defs setBatteryLevel_frame armed_updates
      armed_cong[of "setBatteryLevel x s" s])

lemma autoLock_armed_startWatchdog:
  assumes "handles_ok s"
  shows "autoLock_armed (startWatchdog cfg s) = autoLock_armed s"
proof -
  have p: "pred_option (\<lambda>h. h < nextHandle s) (autoLockTimer s)"
    using assms by (simp add: handles_ok_def)
  have n: "armed (autoLockTimer s) (t\<lparr>timers := ts @ [(nextHandle s, cb, d)]\<rparr>) =
           armed (autoLockTimer s) (t\<lparr>timers := ts\<rparr>)" for t ts cb d
    using p by (rule armed_fresh)
  show ?thesis
  proof (cases "watchdog s")
    case None
    then show ?thesis using n[where t = s and ts = "timers s"]
      by (simp add: autoLock_armed_def startWatchdog_def Let_def prim_defs armed_updates)
  next
    case (Some w)
    have c: "armed (autoLockTimer s) (clearTimeout w s) = armed (autoLockTimer s) s"
    proof (cases "autoLockTimer s")
      case None
      then show ?thesis by simp
    next
      case (Some a)
      then show ?thesis using armed_clear_other(2)[OF assms \<open>watchdog s = Some w\<close> Some] by simp
    qed
    then show ?thesis
      using Some n[where t = s and ts = "filter (\<lambda>t. fst t \<noteq> w) (timers s)"]
      by (simp add: autoLock_armed_def startWatchdog_def Let_def prim_defs armed_updates)
  qed
qed

lemma setTargetLockState_autoLock:
  "handles_ok s \<Longrightarrow> autoLock_armed (setTargetLockState cfg v s) = autoLock_armed s"
proof -
  assume h: "handles_ok s"
  have "autoLock_armed (startWatchdog cfg t) = autoLock_armed s"
    if "handles_ok t" "autoLock_armed t = autoLock_armed s" for t
    using that autoLock_armed_startWatchdog by simp
  then show ?thesis
    using h
    by (simp add: setTargetLockState_def Let_def sendLockCommand_def autoLock_armed_prims
        handles_ok_prims)
qed

lemma setTargetLockState_frame:
  "autoLockTimer (setTargetLockState cfg v s) = autoLockTimer s"
  "polled (updates (setTargetLockState cfg v s)) = polled (updates s)"
  by (simp_all add: setTargetLockState_def Let_def sendLockCommand_def startWatchdog_def prim_defs
      polled_append split: option.splits)

lemma lastPolledKnown_cong:
  "polled (updates t) = polled (updates s) \<Longrightarrow> lastPolledKnown t = lastPolledKnown s"
  by (simp add: lastPolledKnown_def)

lemma toLockState_cases:
  "toLockState sensors = UNKNOWN \<or> toLockState sensors = SECURED \<or> toLockState sensors = UNSECURED"
  by (simp add: toLockState_def split: option.splits)

lemma completionCheck_autoLock:
  "autoLock_armed (completionCheck c s) \<Longrightarrow> autoLock_armed s"
proof -
  assume a: "autoLock_armed (completionCheck c s)"
  have "armed x (completionCheck c s) \<Longrightarrow> armed x s" for x
    by (cases x) (auto simp: completionCheck_def Let_def prim_defs split: option.splits if_splits)
  with a show ?thesis by (simp add: autoLock_armed_def completionCheck_frame)
qed

lemma completionCheck_UNKNOWN: "completionCheck UNKNOWN s = s"
  by (simp add: completionCheck_def Let_def)

lemma poll_resume_SECURED:
  "toLockState sensors = SECURED \<Longrightarrow> autoLockTimer (poll_resume cfg (Inr sensors) s) = None"
  by (simp add: poll_resume_Inr completionCheck_frame maintainAutoLock_def cancelAutoLockTimer_frame)

lemma poll_resume_UNKNOWN:
  "toLockState sensors = UNKNOWN \<Longrightarrow>
   poll_resume cfg (Inr sensors) s = updateValue (UpdLockCurrentState UNKNOWN) (setBatteryLevel sensors s)"
  by (simp add: poll_resume_Inr completionCheck_UNKNOWN maintainAutoLock_def)

lemma poll_resume_polled:
  "polled (updates (poll_resume cfg (Inr sensors) s)) =
     polled (updates s) @ [toLockState sensors]"
  by (simp add: poll_resume_Inr completionCheck_frame maintainAutoLock_frame updateValue_def
      polled_append setBatteryLevel_polled)

lemma last_opt_snoc: "last_opt (xs @ [x]) = Some x"
  by (simp add: last_opt_def)

lemma autoLock_inv_poll_resume:
  assumes "autoLock_armed s \<longrightarrow> lastPolledKnown s = Some UNSECURED"
  shows "autoLock_armed (poll_resume cfg r s) \<longrightarrow> lastPolledKnown (poll_resume cfg r s) = Some UNSECURED"
proof (cases r)
  case (Inl e)
  then show ?thesis using assms
    by (simp add: poll_resume_def autoLock_armed_prims lastPolledKnown_def log_msg_def)
next
  case (Inr sensors)
  from toLockState_cases[of sensors] show ?thesis
  proof (elim disjE)
    assume u: "toLockState sensors = UNKNOWN"
    show ?thesis unfolding Inr poll_resume_UNKNOWN[OF u] using assms
      by (simp add: autoLock_armed_prims lastPolledKnown_def updateValue_def polled_append
          setBatteryLevel_polled)
  next
    assume "toLockState sensors = SECURED"
    then have "autoLockTimer (poll_resume cfg (Inr sensors) s) = None" by (rule poll_resume_SECURED)
    then show ?thesis unfolding Inr by (simp add: autoLock_armed_def)
  next
    assume "toLockState sensors = UNSECURED"
    then show ?thesis unfolding Inr
      by (simp add: lastPolledKnown_def poll_resume_polled last_opt_snoc)
  qed
qed

lemma autoLock_inv_fire:
  assumes "handles_ok s" and "autoLock_armed s \<longrightarrow> lastPolledKnown s = Some UNSECURED"
  shows "autoLock_armed (fire cfg h s) \<longrightarrow> lastPolledKnown (fire cfg h s) = Some UNSECURED"
proof (cases "find (\<lambda>t. fst t = h) (timers s)")
  case None
  then show ?thesis using assms by (simp add: fire_def)
next
  case (Some t)
  obtain h' cb d where t: "t = (h', cb, d)" by (cases t) auto
  have c: "autoLock_armed (clearTimeout h s) \<Longrightarrow> autoLock_armed s"
    unfolding autoLock_armed_def using armed_clear_mono[of "autoLockTimer s" h s]
    by (simp add: clearTimeout_def)
  have l: "lastPolledKnown (clearTimeout h s) = lastPolledKnown s"
    by (simp add: lastPolledKnown_def clearTimeout_def)
  show ?thesis
  proof (cases cb)
    case PollCb
    then show ?thesis using Some t assms(2)
      by (simp add: fire_def poll_def autoLock_armed_prims lastPolledKnown_def await_sensors_def)
  next
    case WatchdogCb
    have "watchdog_expired (clearTimeout h s) =
        (clearTimeout h s)\<lparr>logs := logs s @ [(Warn, ''Lock operation watchdog expired; reconciling.'', [])],
          inFlight := False, awaiting := awaiting s @ [ReconcileK]\<rparr>"
      by (simp add: watchdog_expired_def reconcileTargetWithCurrent_def getLockState_def Let_def prim_defs)
    then show ?thesis using Some t WatchdogCb assms(2) c l
      by (simp add: fire_def autoLock_armed_prims lastPolledKnown_def)
  next
    case AutoLockCb
    let ?t = "log_msg Info ''Auto-lock timer elapsed. Relocking.'' [MinutesArg (autoLockMinutes cfg)] (clearTimeout h s)"
    have ht: "handles_ok ?t" using assms(1) by (simp add: handles_ok_prims handles_ok_clearTimeout)
    have "autoLock_armed (setTargetLockState cfg (VNum (LockTargetState_num T_SECURED)) ?t) = autoLock_armed (clearTimeout h s)"
      using setTargetLockState_autoLock[OF ht] by (simp add: autoLock_armed_prims)
    moreover have "lastPolledKnown (setTargetLockState cfg (VNum (LockTargetState_num T_SECURED)) ?t) = lastPolledKnown s"
      by (simp add: lastPolledKnown_def setTargetLockState_frame log_msg_def clearTimeout_def)
    ultimately show ?thesis using Some t AutoLockCb assms(2) c
      by (simp add: fire_def autoLock_expired_def Let_def)
  qed
qed

lemma autoLock_inv_resume:
  assumes "autoLock_armed s \<longrightarrow> lastPolledKnown s = Some UNSECURED"
  shows "autoLock_armed (resume cfg k r s) \<longrightarrow> lastPolledKnown (resume cfg k r s) = Some UNSECURED"
proof (cases k)
  case PollK
  then show ?thesis using autoLock_inv_poll_resume[OF assms] by (simp add: resume_def)
next
  case GetLockStateK
  then show ?thesis using assms
    by (simp add: resume_def autoLock_armed_def lastPolledKnown_def getLockState_resume_frame
        armed_cong[of "snd (getLockState_resume r s)" s])
next
  case GetTargetLockStateK
  then show ?thesis using assms
    by (simp add: resume_def autoLock_armed_def lastPolledKnown_def snd_getTargetLockState_resume
        getLockState_resume_frame armed_cong[of "snd (getLockState_resume r s)" s])
next
  case ReconcileK
  then show ?thesis using assms
    by (simp add: resume_def autoLock_armed_def lastPolledKnown_def reconcile_resume_frame
        armed_cong[of "snd (reconcileTargetWithCurrent_resume r s)" s])
next
  case SendLockCommandK
  then show ?thesis using assms by (simp add: resume_def)
qed

lemma autoLock_inv_step:
  assumes "handles_ok s" and "autoLock_armed s \<longrightarrow> lastPolledKnown s = Some UNSECURED"
  shows "autoLock_armed (step cfg s e) \<longrightarrow> lastPolledKnown (step cfg s e) = Some UNSECURED"
proof (cases e)
  case OnGetLockCurrentState
  then show ?thesis using assms(2)
    by (simp add: getLockState_def autoLock_armed_prims lastPolledKnown_def await_sensors_def)
next
  case OnGetLockTargetState
  then show ?thesis using assms(2)
    by (simp add: getTargetLockState_def getLockState_def autoLock_armed_prims lastPolledKnown_def
        await_sensors_def split: option.splits)
next
  case (OnSetLockTargetState v)
  then show ?thesis using assms setTargetLockState_autoLock[OF assms(1), of cfg v]
    by (simp add: lastPolledKnown_def setTargetLockState_frame)
next
  case (TimerFired h)
  then show ?thesis using autoLock_inv_fire[OF assms] by simp
next
  case (SensorsSettled k r)
  have "autoLock_armed (s\<lparr>awaiting := remove1 k (awaiting s)\<rparr>) \<longrightarrow>
      lastPolledKnown (s\<lparr>awaiting := remove1 k (awaiting s)\<rparr>) = Some UNSECURED"
    using assms(2) by (simp add: autoLock_armed_prims lastPolledKnown_def)
  then show ?thesis using SensorsSettled assms(2) autoLock_inv_resume by simp
next
  case (ToggleLockSettled r)
  then show ?thesis using assms(2)
    by (cases r) (simp_all add: sendLockCommand_resume_def reconcileTargetWithCurrent_def
        getLockState_def Let_def prim_defs autoLock_armed_prims lastPolledKnown_def)
qed

lemma autoLock_inv_run:
  "handles_ok s \<Longrightarrow> autoLock_armed s \<longrightarrow> lastPolledKnown s = Some UNSECURED \<Longrightarrow>
   autoLock_armed (run cfg s es) \<longrightarrow> lastPolledKnown (run cfg s es) = Some UNSECURED"
proof (induction es arbitrary: s)
  case Nil
  then show ?case by (simp add: run_def)
next
  case (Cons e es)
  have "autoLock_armed (run cfg (step cfg s e) es) \<longrightarrow> lastPolledKnown (run cfg (step cfg s e) es) = Some UNSECURED"
    using Cons.prems by (intro Cons.IH handles_ok_step autoLock_inv_step)
  then show ?case by (simp add: run_def)
qed

lemma autoLock_timers_armed:
  assumes "handles_ok s" and "autoLock_timers s \<noteq> []"
  shows "autoLock_armed s"
proof -
  from assms(2) obtain t where t: "t \<in> set (timers s)" "fst (snd t) = AutoLockCb"
    by (auto simp: autoLock_timers_def filter_empty_conv)
  with assms(1) have "autoLockTimer s = Some (fst t)"
    by (auto simp: handles_ok_def list_all_iff)
  with t(1) show ?thesis by (simp add: autoLock_armed_def)
qed

lemma cancelAutoLockTimer_table:
  assumes "handles_ok s"
  shows "autoLock_timers (cancelAutoLockTimer s) = []"
proof (cases "autoLockTimer s")
  case None
  with assms have "\<forall>t \<in> set (timers s). fst (snd t) \<noteq> AutoLockCb"
    by (auto simp: handles_ok_def list_all_iff)
  then show ?thesis using None
    by (simp add: cancelAutoLockTimer_def autoLock_timers_def filter_empty_conv)
next
  case (Some a)
  with assms have "\<forall>t \<in> set (timers s). fst (snd t) = AutoLockCb \<longrightarrow> fst t = a"
    by (auto simp: handles_ok_def list_all_iff)
  then show ?thesis using Some
    by (auto simp: cancelAutoLockTimer_def clearTimeout_def autoLock_timers_def filter_empty_conv)
qed

lemma completionCheck_table:
  "autoLock_timers s = [] \<Longrightarrow> autoLock_timers (completionCheck c s) = []"
  by (auto simp: completionCheck_def Let_def prim_defs autoLock_timers_def filter_empty_conv
      split: option.splits)

lemma poll_resume_SECURED_table:
  assumes "handles_ok s" and "toLockState sensors = SECURED"
  shows "autoLock_timers (poll_resume cfg (Inr sensors) s) = []"
proof -
  let ?t = "updateValue (UpdLockCurrentState SECURED) (setBatteryLevel sensors s)"
  have "handles_ok ?t" using assms(1) by (simp add: handles_ok_prims)
  then have "autoLock_timers (cancelAutoLockTimer ?t) = []" by (rule cancelAutoLockTimer_table)
  then show ?thesis
    using assms(2) by (simp add: poll_resume_Inr maintainAutoLock_def completionCheck_table)
qed

text \<open>
  C7, as the claim states it, fails twice over. A poll that finds no lock reading
  observes \<open>UNKNOWN\<close> and leaves an armed auto-lock timer armed. And after a poll has
  observed \<open>UNSECURED\<close>, an on-demand read by \<open>getLockState\<close> that observes
  \<open>SECURED\<close> returns that state and leaves the auto-lock timer armed and in the table.
\<close>

theorem autoLock_armed_counterexample:
  "(let s = run example_cfg (init example_cfg)
              [TimerFired 0, SensorsSettled PollK (Inr [reading ''lock'' ''unlocked''])];
        s1 = run example_cfg s [TimerFired 0, SensorsSettled PollK (Inr [])];
        s2 = run example_cfg s
               [OnGetLockCurrentState, SensorsSettled GetLockStateK (Inr [reading ''lock'' ''locked''])]
    in (autoLock_armed s1 \<and> lastPolled s1 = Some UNKNOWN \<and> lastPolled s1 \<noteq> Some UNSECURED) \<and>
       (fst (getLockState_resume (Inr [reading ''lock'' ''locked'']) s) = Inr SECURED \<and>
        autoLock_armed s2 \<and> autoLock_timers s2 = [(1, AutoLockCb, 60000)]))"
  by (simp add: eval_defs autoLock_armed_def lastPolled_def last_opt_def getLockState_resume_def
      autoLock_timers_def)

text \<open>
  C7, amended. In every reachable state, if the auto-lock timer is armed, or any
  auto-lock timer is in the runtime's table, then the latest poll that observed a state
  other than \<open>UNKNOWN\<close> observed \<open>UNSECURED\<close>. Only polls count: a state derived by
  \<open>getLockState\<close>, for HomeKit, for \<open>getTargetLockState\<close> or for reconciliation, is
  returned to the caller, and whatever it is, the field \<open>autoLockTimer\<close>, the timer
  table and the states the polls have observed stay as they were. Every poll that
  observes \<open>SECURED\<close> in a reachable state clears the field and leaves no auto-lock timer
  in the table; a poll that observes \<open>UNKNOWN\<close> leaves the field and the table as they
  were.
\<close>

theorem autoLock_armed_after_UNSECURED:
  "(let s = run cfg (init cfg) es
    in ((autoLock_armed s \<or> autoLock_timers s \<noteq> []) \<longrightarrow> lastPolledKnown s = Some UNSECURED) \<and>
       (toLockState sensors = SECURED \<longrightarrow>
          (let s' = poll_resume cfg (Inr sensors) s
           in autoLockTimer s' = None \<and> autoLock_timers s' = [] \<and> \<not> autoLock_armed s'))) \<and>
   (toLockState sensors = UNKNOWN \<longrightarrow>
      (let t' = poll_resume cfg (Inr sensors) t
       in autoLockTimer t' = autoLockTimer t \<and> timers t' = timers t \<and>
          autoLock_armed t' = autoLock_armed t)) \<and>
   (let t' = snd (getLockState_resume r t)
    in autoLockTimer t' = autoLockTimer t \<and> timers t' = timers t \<and>
       polled (updates t') = polled (updates t)) \<and>
   (let t' = snd (getTargetLockState_resume r t)
    in autoLockTimer t' = autoLockTimer t \<and> timers t' = timers t \<and>
       polled (updates t') = polled (updates t)) \<and>
   (let t' = snd (reconcileTargetWithCurrent_resume r t)
    in autoLockTimer t' = autoLockTimer t \<and> timers t' = timers t \<and>
       polled (updates t') = polled (updates t))"
proof -
  let ?s = "run cfg (init cfg) es"
  have h: "handles_ok ?s" by (rule handles_ok_run) (rule handles_ok_init)
  have i: "autoLock_armed ?s \<longrightarrow> lastPolledKnown ?s = Some UNSECURED"
    by (rule autoLock_inv_run[OF handles_ok_init]) (simp add: autoLock_armed_def init_def)
  have 1: "(autoLock_armed ?s \<or> autoLock_timers ?s \<noteq> []) \<longrightarrow> lastPolledKnown ?s = Some UNSECURED"
    using i autoLock_timers_armed[OF h] by blast
  have 2: "toLockState sensors = SECURED \<longrightarrow>
          (let s' = poll_resume cfg (Inr sensors) ?s
           in autoLockTimer s' = None \<and> autoLock_timers s' = [] \<and> \<not> autoLock_armed s')"
    using poll_resume_SECURED_table[OF h, of sensors cfg]
    by (simp add: Let_def poll_resume_SECURED autoLock_armed_def)
  have 3: "toLockState sensors = UNKNOWN \<longrightarrow>
      (let t' = poll_resume cfg (Inr sensors) t
       in autoLockTimer t' = autoLockTimer t \<and> timers t' = timers t \<and>
          autoLock_armed t' = autoLock_armed t)"
    by (simp add: Let_def poll_resume_UNKNOWN autoLock_armed_prims updateValue_def
        setBatteryLevel_frame)
  have 4: "let t' = snd (getLockState_resume r t)
    in autoLockTimer t' = autoLockTimer t \<and> timers t' = timers t \<and>
       polled (updates t') = polled (updates t)"
    by (simp add: Let_def getLockState_resume_frame)
  have 5: "let t' = snd (getTargetLockState_resume r t)
    in autoLockTimer t' = autoLockTimer t \<and> timers t' = timers t \<and>
       polled (updates t') = polled (updates t)"
    by (simp add: Let_def snd_getTargetLockState_resume getLockState_resume_frame)
  have 6: "let t' = snd (reconcileTargetWithCurrent_resume r t)
    in autoLockTimer t' = autoLockTimer t \<and> timers t' = timers t \<and>
       polled (updates t') = polled (updates t)"
    by (simp add: Let_def reconcile_resume_frame)
  from 1 2 3 4 5 6 show ?thesis unfolding Let_def by blast
qed

theorem autoLock_armed_after_UNSECURED_witness:
  "(let s = run example_cfg (init example_cfg)
              [TimerFired 0, SensorsSettled PollK (Inr [reading ''lock'' ''unlocked''])]
    in autoLock_armed s \<and> autoLock_timers s \<noteq> [] \<and> lastPolledKnown s = Some UNSECURED \<and>
       autoLock_timers (poll_resume example_cfg (Inr [reading ''lock'' ''locked'']) s) = [] \<and>
       \<not> autoLock_armed (poll_resume example_cfg (Inr [reading ''lock'' ''locked'']) s) \<and>
       autoLock_armed (poll_resume example_cfg (Inr [reading ''battery'' ''87'']) s) \<and>
       timers (poll_resume example_cfg (Inr [reading ''battery'' ''87'']) s) = timers s)"
proof -
  let ?es = "[TimerFired 0, SensorsSettled PollK (Inr [reading ''lock'' ''unlocked''])]"
  let ?s = "run example_cfg (init example_cfg) ?es"
  let ?locked = "[reading ''lock'' ''locked'']"
  let ?nolock = "[reading ''battery'' ''87'']"
  have a: "autoLock_armed ?s" by (simp add: run_unlocked autoLock_armed_def)
  have b: "autoLock_timers ?s \<noteq> []" by (simp add: run_unlocked autoLock_timers_def)
  have l: "toLockState ?locked = SECURED"
    by (simp add: toLockState_def reading_def)
  have u: "toLockState ?nolock = UNKNOWN"
    by (simp add: toLockState_def reading_def)
  note t = autoLock_armed_after_UNSECURED[where cfg = example_cfg and es = ?es, unfolded Let_def]
  have 1: "lastPolledKnown ?s = Some UNSECURED"
    using t[THEN conjunct1, THEN conjunct1] a by blast
  have 2: "autoLock_timers (poll_resume example_cfg (Inr ?locked) ?s) = [] \<and>
           \<not> autoLock_armed (poll_resume example_cfg (Inr ?locked) ?s)"
    using t[where sensors = ?locked, THEN conjunct1, THEN conjunct2] l by blast
  have 3: "autoLock_armed (poll_resume example_cfg (Inr ?nolock) ?s) \<and>
           timers (poll_resume example_cfg (Inr ?nolock) ?s) = timers ?s"
    using t[where sensors = ?nolock and t = ?s, THEN conjunct2, THEN conjunct1] u a by blast
  from a b 1 2 3 show ?thesis unfolding Let_def by blast
qed

subsection \<open>The stale auto-lock handle\<close>

lemma relock_attempts_log:
  "relock_attempts (s\<lparr>logs := logs s @ [(l, m, args)]\<rparr>) =
     relock_attempts s + (if m = ''Auto-lock timer elapsed. Relocking.'' then 1 else 0)"
  by (simp add: relock_attempts_def)

lemma relock_attempts_cong: "logs t = logs s \<Longrightarrow> relock_attempts t = relock_attempts s"
  by (simp add: relock_attempts_def)

lemma autoLock_timers_cong: "timers t = timers s \<Longrightarrow> autoLock_timers t = autoLock_timers s"
  by (simp add: autoLock_timers_def)

lemma autoLock_timers_clear:
  "autoLock_timers s = [] \<Longrightarrow> autoLock_timers (clearTimeout h s) = []"
  by (auto simp: autoLock_timers_def clearTimeout_def filter_empty_conv)

lemma spent_setTargetLockState:
  "autoLock_timers s = [] \<Longrightarrow> autoLock_timers (setTargetLockState cfg v s) = []"
  "relock_attempts (setTargetLockState cfg v s) = relock_attempts s"
  by (auto simp: setTargetLockState_def Let_def sendLockCommand_def startWatchdog_def prim_defs
      autoLock_timers_def relock_attempts_def filter_empty_conv split: option.splits)

lemma spent_fire:
  assumes "autoLock_timers s = []"
  shows "autoLock_timers (fire cfg h s) = [] \<and> autoLockTimer (fire cfg h s) = autoLockTimer s \<and>
         relock_attempts (fire cfg h s) = relock_attempts s"
proof (cases "find (\<lambda>t. fst t = h) (timers s)")
  case None
  then show ?thesis using assms by (simp add: fire_def)
next
  case (Some t)
  obtain h' cb d where t: "t = (h', cb, d)" by (cases t) auto
  from Some t have m: "(h, cb, d) \<in> set (timers s)"
    using find_timer[of h "timers s" h' cb d] by simp
  have n: "cb \<noteq> AutoLockCb"
    using assms m by (auto simp: autoLock_timers_def filter_empty_conv)
  show ?thesis
  proof (cases cb)
    case PollCb
    then show ?thesis using Some t assms
      by (simp add: fire_def poll_def await_sensors_def autoLock_timers_def relock_attempts_def)
  next
    case WatchdogCb
    have "watchdog_expired (clearTimeout h s) =
        (clearTimeout h s)\<lparr>logs := logs s @ [(Warn, ''Lock operation watchdog expired; reconciling.'', [])],
          inFlight := False, awaiting := awaiting s @ [ReconcileK]\<rparr>"
      by (simp add: watchdog_expired_def reconcileTargetWithCurrent_def getLockState_def Let_def prim_defs)
    then show ?thesis using Some t WatchdogCb autoLock_timers_clear[OF assms, of h]
      by (simp add: fire_def autoLock_timers_def relock_attempts_def clearTimeout_def)
  next
    case AutoLockCb
    with n show ?thesis by simp
  qed
qed

lemma spent_poll_resume:
  assumes "autoLockTimer s = Some h" and "autoLock_timers s = []"
    and "\<not> observes_SECURED (SensorsSettled PollK r)"
  shows "autoLock_timers (poll_resume cfg r s) = [] \<and> autoLockTimer (poll_resume cfg r s) = Some h \<and>
         relock_attempts (poll_resume cfg r s) = relock_attempts s"
proof (cases r)
  case (Inl e)
  then show ?thesis using assms
    by (simp add: poll_resume_def log_msg_def autoLock_timers_def relock_attempts_def)
next
  case (Inr sensors)
  let ?c = "toLockState sensors"
  let ?s2 = "updateValue (UpdLockCurrentState ?c) (setBatteryLevel sensors s)"
  from assms(3) Inr have c: "?c \<noteq> SECURED" by simp
  have m: "maintainAutoLock cfg ?c ?s2 = ?s2"
    using c assms(1) by (simp add: maintainAutoLock_def updateValue_def setBatteryLevel_frame)
  have a: "autoLockTimer ?s2 = Some h" "autoLock_timers ?s2 = []" "relock_attempts ?s2 = relock_attempts s"
    using assms(1,2)
    by (simp_all add: updateValue_def setBatteryLevel_frame autoLock_timers_def
        setBatteryLevel_relock relock_attempts_cong[of "_\<lparr>updates := _\<rparr>" "setBatteryLevel sensors s"])
  have k: "autoLock_timers (completionCheck ?c ?s2) = [] \<and>
           relock_attempts (completionCheck ?c ?s2) = relock_attempts ?s2"
    using a(2)
    by (auto simp: completionCheck_def Let_def prim_defs autoLock_timers_def relock_attempts_def
        filter_empty_conv split: option.splits)
  show ?thesis unfolding Inr poll_resume_Inr m using a k by (simp add: completionCheck_frame)
qed

lemma spent_resume:
  assumes "autoLockTimer s = Some h" and "autoLock_timers s = []"
    and "\<not> observes_SECURED (SensorsSettled k r)"
  shows "autoLock_timers (resume cfg k r s) = [] \<and> autoLockTimer (resume cfg k r s) = Some h \<and>
         relock_attempts (resume cfg k r s) = relock_attempts s"
proof (cases k)
  case PollK
  then show ?thesis using spent_poll_resume[OF assms(1,2), of r cfg] assms(3) by (simp add: resume_def)
next
  case GetLockStateK
  then show ?thesis using assms(1,2)
    by (simp add: resume_def getLockState_resume_frame
        autoLock_timers_cong[of "snd (getLockState_resume r s)" s])
next
  case GetTargetLockStateK
  then show ?thesis using assms(1,2)
    by (simp add: resume_def snd_getTargetLockState_resume getLockState_resume_frame
        autoLock_timers_cong[of "snd (getLockState_resume r s)" s])
next
  case ReconcileK
  then show ?thesis using assms(1,2)
    by (simp add: resume_def reconcile_resume_frame
        autoLock_timers_cong[of "snd (reconcileTargetWithCurrent_resume r s)" s])
next
  case SendLockCommandK
  then show ?thesis using assms(1,2) by (simp add: resume_def)
qed

lemma spent_step:
  assumes "autoLockTimer s = Some h" and "autoLock_timers s = []" and "\<not> observes_SECURED e"
  shows "autoLock_timers (step cfg s e) = [] \<and> autoLockTimer (step cfg s e) = Some h \<and>
         relock_attempts (step cfg s e) = relock_attempts s"
proof (cases e)
  case OnGetLockCurrentState
  then show ?thesis using assms(1,2)
    by (simp add: getLockState_def await_sensors_def autoLock_timers_def relock_attempts_def)
next
  case OnGetLockTargetState
  then show ?thesis using assms(1,2)
    by (simp add: getTargetLockState_def getLockState_def await_sensors_def autoLock_timers_def
        relock_attempts_def split: option.splits)
next
  case (OnSetLockTargetState v)
  then show ?thesis using assms(1) spent_setTargetLockState[where s = s and cfg = cfg and v = v] assms(2)
    by (simp add: setTargetLockState_frame)
next
  case (TimerFired h')
  then show ?thesis using spent_fire[OF assms(2), of cfg h'] assms(1) by simp
next
  case (SensorsSettled k r)
  let ?t = "s\<lparr>awaiting := remove1 k (awaiting s)\<rparr>"
  have "autoLockTimer ?t = Some h" "autoLock_timers ?t = []" "relock_attempts ?t = relock_attempts s"
    using assms(1,2) by (simp_all add: autoLock_timers_def relock_attempts_def)
  then show ?thesis using SensorsSettled assms spent_resume[of ?t h k r cfg] by simp
next
  case (ToggleLockSettled r)
  then show ?thesis using assms(1,2)
    by (cases r) (simp_all add: sendLockCommand_resume_def reconcileTargetWithCurrent_def
        getLockState_def Let_def prim_defs autoLock_timers_def relock_attempts_def)
qed

lemma spent_run:
  "autoLockTimer s = Some h \<Longrightarrow> autoLock_timers s = [] \<Longrightarrow>
   list_all (\<lambda>e. \<not> observes_SECURED e) es \<Longrightarrow>
   autoLock_timers (run cfg s es) = [] \<and> autoLockTimer (run cfg s es) = Some h \<and>
   relock_attempts (run cfg s es) = relock_attempts s"
proof (induction es arbitrary: s)
  case Nil
  then show ?case by (simp add: run_def)
next
  case (Cons e es)
  from Cons.prems have e: "\<not> observes_SECURED e" and es: "list_all (\<lambda>e. \<not> observes_SECURED e) es"
    by simp_all
  note st = spent_step[OF Cons.prems(1,2) e, of cfg]
  have "autoLock_timers (run cfg (step cfg s e) es) = [] \<and>
        autoLockTimer (run cfg (step cfg s e) es) = Some h \<and>
        relock_attempts (run cfg (step cfg s e) es) = relock_attempts (step cfg s e)"
    using st es by (intro Cons.IH) simp_all
  then show ?case using st by (simp add: run_def)
qed

lemma not_armed_without_timer:
  "autoLock_timers s = [] \<Longrightarrow> handles_ok s \<Longrightarrow> \<not> autoLock_armed s"
proof
  assume e: "autoLock_timers s = []" and h: "handles_ok s" and a: "autoLock_armed s"
  from a obtain x where x: "autoLockTimer s = Some x" "x \<in> fst ` set (timers s)"
    by (cases "autoLockTimer s") (auto simp: autoLock_armed_def)
  then obtain t where t: "t \<in> set (timers s)" "fst t = x" by auto
  with h x(1) have "fst (snd t) = AutoLockCb" by (auto simp: handles_ok_def list_all_iff)
  with t(1) e show False by (auto simp: autoLock_timers_def filter_empty_conv)
qed

lemma find_exists: "t \<in> set ts \<Longrightarrow> P t \<Longrightarrow> \<exists>t'. find P ts = Some t'"
  by (induction ts) auto

lemma fire_autoLock:
  assumes "handles_ok s" and "autoLockTimer s = Some h" and "autoLock_armed s"
  shows "fire cfg h s = autoLock_expired cfg (clearTimeout h s)"
    and "autoLock_timers (clearTimeout h s) = []"
proof -
  from assms(2,3) obtain t where t: "t \<in> set (timers s)" "fst t = h"
    by (auto simp: autoLock_armed_def)
  with assms(1,2) have cb: "fst (snd t) = AutoLockCb" by (auto simp: handles_ok_def list_all_iff)
  from t obtain t' where f: "find (\<lambda>t. fst t = h) (timers s) = Some t'"
    using find_exists[of t "timers s" "\<lambda>t. fst t = h"] by blast
  obtain h' cb' d' where t': "t' = (h', cb', d')" by (cases t') auto
  from f t' have m: "h' = h" "(h, cb', d') \<in> set (timers s)"
    using find_timer[of h "timers s" h' cb' d'] by simp_all
  from assms(1,2) m have "cb' = AutoLockCb" by (auto simp: handles_ok_def list_all_iff)
  with f t' show "fire cfg h s = autoLock_expired cfg (clearTimeout h s)" by (simp add: fire_def)
  have "\<forall>u \<in> set (timers s). fst (snd u) = AutoLockCb \<longrightarrow> fst u = h"
    using assms(1,2) by (auto simp: handles_ok_def list_all_iff)
  then show "autoLock_timers (clearTimeout h s) = []"
    by (auto simp: autoLock_timers_def clearTimeout_def filter_empty_conv)
qed

text \<open>
  C10. Take a reachable state whose auto-lock timer is armed and let the timer fire: this
  is one relock attempt. The callback leaves the field \<open>autoLockTimer\<close> as it is, so
  after any further events, none of them a poll that observes \<open>SECURED\<close>, the field
  still holds the old handle, no auto-lock timer is in the table, and no further relock
  attempt has been made. A poll that observes \<open>SECURED\<close> then clears the field.
\<close>

theorem autoLock_timer_fires_once:
  assumes "s0 = run cfg (init cfg) es0"
    and "autoLockTimer s0 = Some h" and "autoLock_armed s0"
    and "list_all (\<lambda>e. \<not> observes_SECURED e) es"
  shows "(let s1 = step cfg s0 (TimerFired h); s' = run cfg s1 es
          in relock_attempts s1 = Suc (relock_attempts s0) \<and>
             autoLockTimer s' = Some h \<and> \<not> autoLock_armed s' \<and> autoLock_timers s' = [] \<and>
             relock_attempts s' = relock_attempts s1 \<and>
             (toLockState sensors = SECURED \<longrightarrow>
                autoLockTimer (poll_resume cfg (Inr sensors) s') = None))"
proof -
  have h0: "handles_ok s0" unfolding assms(1) by (rule handles_ok_run) (rule handles_ok_init)
  let ?c = "clearTimeout h s0"
  let ?l = "log_msg Info ''Auto-lock timer elapsed. Relocking.'' [MinutesArg (autoLockMinutes cfg)] ?c"
  let ?fired = "step cfg s0 (TimerFired h)"
  have f: "?fired = setTargetLockState cfg (VNum (LockTargetState_num T_SECURED)) ?l"
    using fire_autoLock(1)[OF h0 assms(2,3), of cfg] by (simp add: autoLock_expired_def Let_def)
  have c: "autoLock_timers ?l = []" "autoLockTimer ?l = Some h"
    "relock_attempts ?l = Suc (relock_attempts s0)"
    using fire_autoLock(2)[OF h0 assms(2,3)] assms(2)
    by (simp_all add: log_msg_def clearTimeout_def autoLock_timers_def relock_attempts_def)
  have s1: "autoLock_timers ?fired = []" "autoLockTimer ?fired = Some h"
    "relock_attempts ?fired = Suc (relock_attempts s0)"
    unfolding f using c by (simp_all add: spent_setTargetLockState setTargetLockState_frame)
  note r = spent_run[OF s1(2) s1(1) assms(4), of cfg]
  have hk: "handles_ok (run cfg ?fired es)" using h0 by (intro handles_ok_run handles_ok_step)
  have na: "\<not> autoLock_armed (run cfg ?fired es)"
    using r hk by (intro not_armed_without_timer) simp_all
  have sec: "toLockState sensors = SECURED \<longrightarrow>
                autoLockTimer (poll_resume cfg (Inr sensors) (run cfg ?fired es)) = None"
    by (simp add: poll_resume_SECURED)
  show ?thesis unfolding Let_def using s1(3) r na sec by simp
qed

theorem autoLock_timer_fires_once_witness:
  "(let s0 = run example_cfg (init example_cfg)
               [TimerFired 0, SensorsSettled PollK (Inr [reading ''lock'' ''unlocked''])];
        s1 = step example_cfg s0 (TimerFired 1);
        s' = run example_cfg s1
               [TimerFired 0, SensorsSettled PollK (Inr [reading ''lock'' ''unlocked'']),
                ToggleLockSettled (Inr ()), TimerFired 2, TimerFired 1]
    in autoLockTimer s0 = Some 1 \<and> autoLock_armed s0 \<and> relock_attempts s0 = 0 \<and>
       relock_attempts s' = 1 \<and> autoLockTimer s' = Some 1 \<and> autoLock_timers s' = [] \<and>
       autoLockTimer (poll_resume example_cfg (Inr [reading ''lock'' ''locked'']) s') = None)"
proof -
  let ?pre = "[TimerFired 0, SensorsSettled PollK (Inr [reading ''lock'' ''unlocked''])]"
  let ?es = "[TimerFired 0, SensorsSettled PollK (Inr [reading ''lock'' ''unlocked'']),
                ToggleLockSettled (Inr ()), TimerFired 2, TimerFired 1]"
  let ?start = "run example_cfg (init example_cfg) ?pre"
  have h1: "autoLockTimer ?start = Some 1" by (simp add: run_unlocked)
  have h2: "autoLock_armed ?start" by (simp add: run_unlocked autoLock_armed_def)
  have h3: "list_all (\<lambda>e. \<not> observes_SECURED e) ?es"
    by (simp add: toLockState_def reading_def)
  have h4: "relock_attempts ?start = 0" by (simp add: run_unlocked relock_attempts_def)
  have h5: "toLockState [reading ''lock'' ''locked''] = SECURED"
    by (simp add: toLockState_def reading_def)
  show ?thesis
    using autoLock_timer_fires_once[OF refl h1 h2 h3, of "[reading ''lock'' ''locked'']"] h1 h2 h4 h5
    unfolding Let_def by simp
qed

end
